theory Spec2Isabelle
  imports Main "HOL-Library.Word"
begin

unbundle bit_operations_syntax

section \<open>Transport: pins, SPI bus, delays\<close>

text \<open>
  The driver talks to the panel through \<^verbatim>\<open>DEV_Config.h\<close>: \<^verbatim>\<open>DEV_Digital_Write\<close>,
  \<^verbatim>\<open>DEV_Digital_Read\<close>, \<^verbatim>\<open>DEV_Delay_ms\<close>, \<^verbatim>\<open>DEV_SPI_WriteByte\<close> and
  \<^verbatim>\<open>DEV_SPI_Write_nByte\<close>, plus \<^verbatim>\<open>esp_task_wdt_reset\<close>. The model keeps the level of
  every output pin and records each of these calls, in order, in a trace. A byte
  clocked out on the SPI bus is recorded together with the levels of the two
  chip-select lines at that moment (a controller listens while its line is \<open>LOW\<close>).
  Serial logging (\<^verbatim>\<open>printf\<close>, \<^verbatim>\<open>Debug\<close>) is not part of the transport and is left out.
\<close>

type_synonym UBYTE = "8 word"

datatype level = LOW | HIGH

datatype pin = EPD_CS_M_PIN | EPD_CS_S_PIN | EPD_DC_PIN | EPD_RST_PIN | EPD_BUSY_PIN | EPD_PWR_PIN

datatype event =
    Digital_Write pin level
  | Digital_Read pin level
  | Delay_ms nat
  | SPI_Transfer level level UBYTE   \<comment> \<open>Master CS level, Slave CS level, byte\<close>
  | Wdt_Reset

record hw =
  pins :: "pin \<Rightarrow> level"
  trace :: "event list"
  reads :: nat   \<comment> \<open>how many times the busy input has been sampled so far\<close>

definition DEV_Digital_Write :: "pin \<Rightarrow> level \<Rightarrow> hw \<Rightarrow> hw" where
  "DEV_Digital_Write p v s = s\<lparr>pins := (pins s)(p := v), trace := trace s @ [Digital_Write p v]\<rparr>"

definition DEV_Delay_ms :: "nat \<Rightarrow> hw \<Rightarrow> hw" where
  "DEV_Delay_ms xms s = s\<lparr>trace := trace s @ [Delay_ms xms]\<rparr>"

definition esp_task_wdt_reset :: "hw \<Rightarrow> hw" where
  "esp_task_wdt_reset s = s\<lparr>trace := trace s @ [Wdt_Reset]\<rparr>"

text \<open>
  The busy input is driven by the panel. \<open>busy k\<close> is the level seen by the \<open>k\<close>-th
  sample taken since start-up; \<open>reads\<close> counts the samples.
\<close>

definition DEV_Digital_Read_busy :: "(nat \<Rightarrow> level) \<Rightarrow> hw \<Rightarrow> level \<times> hw" where
  "DEV_Digital_Read_busy busy s =
     (busy (reads s),
      s\<lparr>trace := trace s @ [Digital_Read EPD_BUSY_PIN (busy (reads s))], reads := Suc (reads s)\<rparr>)"

definition DEV_SPI_WriteByte :: "UBYTE \<Rightarrow> hw \<Rightarrow> hw" where
  "DEV_SPI_WriteByte d s =
     s\<lparr>trace := trace s @ [SPI_Transfer (pins s EPD_CS_M_PIN) (pins s EPD_CS_S_PIN) d]\<rparr>"

text \<open>
  \<^verbatim>\<open>while (len--) SPI.transfer(*data++)\<close>: exactly \<open>len\<close> bytes go out. A C pointer
  carries no length; reading past the end of the caller's array is undefined in C, and
  here the value of such a byte is left unspecified (\<open>hd []\<close>).
\<close>

fun DEV_SPI_Write_nByte :: "UBYTE list \<Rightarrow> nat \<Rightarrow> hw \<Rightarrow> hw" where
  "DEV_SPI_Write_nByte data 0 s = s"
| "DEV_SPI_Write_nByte data (Suc len) s =
     DEV_SPI_Write_nByte (tl data) len (DEV_SPI_WriteByte (hd data) s)"

text \<open>A C block: the statements run in order, each on the state the previous one left.\<close>

fun block :: "('s \<Rightarrow> 's) list \<Rightarrow> 's \<Rightarrow> 's" where
  "block [] s = s"
| "block (f # fs) s = block fs (f s)"

definition DEV_Module_Init :: "hw \<Rightarrow> hw" where
  "DEV_Module_Init =
     block
      [DEV_Digital_Write EPD_CS_M_PIN HIGH,
       DEV_Digital_Write EPD_CS_S_PIN HIGH,
       DEV_Digital_Write EPD_DC_PIN HIGH,
       DEV_Digital_Write EPD_RST_PIN HIGH,
       DEV_Digital_Write EPD_PWR_PIN HIGH]"

text \<open>The board at reset, before \<^verbatim>\<open>setup()\<close> runs, and after \<^verbatim>\<open>DEV_Module_Init\<close>.\<close>

definition boot :: hw where
  "boot = \<lparr>pins = (\<lambda>_. LOW), trace = [], reads = 0\<rparr>"

definition hw0 :: hw where
  "hw0 = DEV_Module_Init boot"

section \<open>Panel constants (EPD\_13in3e.h and the parameter tables)\<close>

definition EPD_13IN3E_WIDTH :: nat where "EPD_13IN3E_WIDTH = 1200"
definition EPD_13IN3E_HEIGHT :: nat where "EPD_13IN3E_HEIGHT = 1600"

definition PSR :: UBYTE where "PSR = 0x00"
definition PWR_epd :: UBYTE where "PWR_epd = 0x01"
definition POF :: UBYTE where "POF = 0x02"
definition PON :: UBYTE where "PON = 0x04"
definition BTST_N :: UBYTE where "BTST_N = 0x05"
definition BTST_P :: UBYTE where "BTST_P = 0x06"
definition DTM :: UBYTE where "DTM = 0x10"
definition DRF :: UBYTE where "DRF = 0x12"
definition CDI :: UBYTE where "CDI = 0x50"
definition TCON :: UBYTE where "TCON = 0x60"
definition TRES :: UBYTE where "TRES = 0x61"
definition AN_TM :: UBYTE where "AN_TM = 0x74"
definition AGID :: UBYTE where "AGID = 0x86"
definition BUCK_BOOST_VDDN :: UBYTE where "BUCK_BOOST_VDDN = 0xB0"
definition TFT_VCOM_POWER :: UBYTE where "TFT_VCOM_POWER = 0xB1"
definition EN_BUF :: UBYTE where "EN_BUF = 0xB6"
definition BOOST_VDDP_EN :: UBYTE where "BOOST_VDDP_EN = 0xB7"
definition CCSET :: UBYTE where "CCSET = 0xE0"
definition PWS :: UBYTE where "PWS = 0xE3"
definition CMD66 :: UBYTE where "CMD66 = 0xF0"

definition PSR_V :: "UBYTE list" where "PSR_V = [0xDF, 0x69]"
definition PWR_V :: "UBYTE list" where "PWR_V = [0x0F, 0x00, 0x28, 0x2C, 0x28, 0x38]"
definition POF_V :: "UBYTE list" where "POF_V = [0x00]"
definition DRF_V :: "UBYTE list" where "DRF_V = [0x00]"
definition CDI_V :: "UBYTE list" where "CDI_V = [0xF7]"
definition TCON_V :: "UBYTE list" where "TCON_V = [0x03, 0x03]"
definition TRES_V :: "UBYTE list" where "TRES_V = [0x04, 0xB0, 0x06, 0x40]"
definition CMD66_V :: "UBYTE list" where "CMD66_V = [0x49, 0x55, 0x13, 0x5D, 0x05, 0x10]"
definition EN_BUF_V :: "UBYTE list" where "EN_BUF_V = [0x07]"
definition CCSET_V :: "UBYTE list" where "CCSET_V = [0x01]"
definition PWS_V :: "UBYTE list" where "PWS_V = [0x22]"
definition AN_TM_V :: "UBYTE list" where
  "AN_TM_V = [0xC0, 0x1C, 0x1C, 0xCC, 0xCC, 0xCC, 0x15, 0x15, 0x55]"
definition AGID_V :: "UBYTE list" where "AGID_V = [0x10]"
definition BTST_P_V :: "UBYTE list" where "BTST_P_V = [0xE8, 0x28]"
definition BOOST_VDDP_EN_V :: "UBYTE list" where "BOOST_VDDP_EN_V = [0x01]"
definition BTST_N_V :: "UBYTE list" where "BTST_N_V = [0xE8, 0x28]"
definition BUCK_BOOST_VDDN_V :: "UBYTE list" where "BUCK_BOOST_VDDN_V = [0x01]"
definition TFT_VCOM_POWER_V :: "UBYTE list" where "TFT_VCOM_POWER_V = [0x02]"

section \<open>Driver helpers\<close>

definition EPD_13IN3E_CS_ALL :: "level \<Rightarrow> hw \<Rightarrow> hw" where
  "EPD_13IN3E_CS_ALL Value =
     block
      [DEV_Digital_Write EPD_CS_M_PIN Value,
       DEV_Digital_Write EPD_CS_S_PIN Value]"

text \<open>The third argument is \<^verbatim>\<open>sizeof(table)\<close> at every call site.\<close>

definition EPD_13IN3E_SPI_Sand :: "UBYTE \<Rightarrow> UBYTE list \<Rightarrow> nat \<Rightarrow> hw \<Rightarrow> hw" where
  "EPD_13IN3E_SPI_Sand Cmd buf Len =
     block
      [DEV_SPI_WriteByte Cmd,
       DEV_SPI_Write_nByte buf Len]"

definition EPD_13IN3E_Reset :: "hw \<Rightarrow> hw" where
  "EPD_13IN3E_Reset =
     block
      [DEV_Digital_Write EPD_RST_PIN HIGH,
       DEV_Delay_ms 30,
       DEV_Digital_Write EPD_RST_PIN LOW,
       DEV_Delay_ms 30,
       DEV_Digital_Write EPD_RST_PIN HIGH,
       DEV_Delay_ms 30,
       DEV_Digital_Write EPD_RST_PIN LOW,
       DEV_Delay_ms 30,
       DEV_Digital_Write EPD_RST_PIN HIGH,
       DEV_Delay_ms 30]"

definition EPD_13IN3E_SendCommand :: "UBYTE \<Rightarrow> hw \<Rightarrow> hw" where
  "EPD_13IN3E_SendCommand Reg = DEV_SPI_WriteByte Reg"

definition EPD_13IN3E_SendData :: "UBYTE \<Rightarrow> hw \<Rightarrow> hw" where
  "EPD_13IN3E_SendData Reg = DEV_SPI_WriteByte Reg"

text \<open>A buffer argument is \<open>None\<close> for a null pointer.\<close>

definition EPD_13IN3E_SendData2 :: "UBYTE list option \<Rightarrow> nat \<Rightarrow> hw \<Rightarrow> hw" where
  "EPD_13IN3E_SendData2 buf Len s =
     (case buf of
        None \<Rightarrow> s
      | Some data \<Rightarrow> if Len = 0 then s else DEV_SPI_Write_nByte data Len s)"

text \<open>
  \<^verbatim>\<open>while(!DEV_Digital_Read(EPD_BUSY_PIN)) { DEV_Delay_ms(10); esp_task_wdt_reset(); }\<close>
  has no bound on the number of polls, so the loop is a partial function: \<open>None\<close>
  stands for a call that never returns.
\<close>

partial_function (option) ReadBusyH_poll :: "(nat \<Rightarrow> level) \<Rightarrow> hw \<Rightarrow> hw option" where
  "ReadBusyH_poll busy s =
     (case DEV_Digital_Read_busy busy s of
        (v, s1) \<Rightarrow>
          if v = LOW then ReadBusyH_poll busy (block [DEV_Delay_ms 10, esp_task_wdt_reset] s1)
          else Some s1)"

definition EPD_13IN3E_ReadBusyH :: "(nat \<Rightarrow> level) \<Rightarrow> hw \<Rightarrow> hw option" where
  "EPD_13IN3E_ReadBusyH busy s = map_option (DEV_Delay_ms 20) (ReadBusyH_poll busy s)"

definition EPD_13IN3E_TurnOnDisplay :: "(nat \<Rightarrow> level) \<Rightarrow> hw \<Rightarrow> hw option" where
  "EPD_13IN3E_TurnOnDisplay busy s =
     (case EPD_13IN3E_ReadBusyH busy
             (block [EPD_13IN3E_CS_ALL LOW,
                     EPD_13IN3E_SendCommand 0x04,
                     EPD_13IN3E_CS_ALL HIGH] s) of
        None \<Rightarrow> None
      | Some s1 \<Rightarrow>
     (case EPD_13IN3E_ReadBusyH busy
             (block [DEV_Delay_ms 50,
                     EPD_13IN3E_CS_ALL LOW,
                     EPD_13IN3E_SPI_Sand DRF DRF_V (length DRF_V),
                     EPD_13IN3E_CS_ALL HIGH] s1) of
        None \<Rightarrow> None
      | Some s2 \<Rightarrow>
          Some (block [EPD_13IN3E_CS_ALL LOW,
                       EPD_13IN3E_SPI_Sand POF POF_V (length POF_V),
                       EPD_13IN3E_CS_ALL HIGH] s2)))"

section \<open>Public driver operations\<close>

definition EPD_13IN3E_Init :: "hw \<Rightarrow> hw" where
  "EPD_13IN3E_Init =
     block
      [EPD_13IN3E_Reset,
       DEV_Digital_Write EPD_CS_M_PIN LOW,
       EPD_13IN3E_SPI_Sand AN_TM AN_TM_V (length AN_TM_V),
       EPD_13IN3E_CS_ALL HIGH,
       EPD_13IN3E_CS_ALL LOW,
       EPD_13IN3E_SPI_Sand CMD66 CMD66_V (length CMD66_V),
       EPD_13IN3E_CS_ALL HIGH,
       EPD_13IN3E_CS_ALL LOW,
       EPD_13IN3E_SPI_Sand PSR PSR_V (length PSR_V),
       EPD_13IN3E_CS_ALL HIGH,
       EPD_13IN3E_CS_ALL LOW,
       EPD_13IN3E_SPI_Sand CDI CDI_V (length CDI_V),
       EPD_13IN3E_CS_ALL HIGH,
       EPD_13IN3E_CS_ALL LOW,
       EPD_13IN3E_SPI_Sand TCON TCON_V (length TCON_V),
       EPD_13IN3E_CS_ALL HIGH,
       EPD_13IN3E_CS_ALL LOW,
       EPD_13IN3E_SPI_Sand AGID AGID_V (length AGID_V),
       EPD_13IN3E_CS_ALL HIGH,
       EPD_13IN3E_CS_ALL LOW,
       EPD_13IN3E_SPI_Sand PWS PWS_V (length PWS_V),
       EPD_13IN3E_CS_ALL HIGH,
       EPD_13IN3E_CS_ALL LOW,
       EPD_13IN3E_SPI_Sand CCSET CCSET_V (length CCSET_V),
       EPD_13IN3E_CS_ALL HIGH,
       EPD_13IN3E_CS_ALL LOW,
       EPD_13IN3E_SPI_Sand TRES TRES_V (length TRES_V),
       EPD_13IN3E_CS_ALL HIGH,
       DEV_Digital_Write EPD_CS_M_PIN LOW,
       EPD_13IN3E_SPI_Sand PWR_epd PWR_V (length PWR_V),
       EPD_13IN3E_CS_ALL HIGH,
       DEV_Digital_Write EPD_CS_M_PIN LOW,
       EPD_13IN3E_SPI_Sand EN_BUF EN_BUF_V (length EN_BUF_V),
       EPD_13IN3E_CS_ALL HIGH,
       DEV_Digital_Write EPD_CS_M_PIN LOW,
       EPD_13IN3E_SPI_Sand BTST_P BTST_P_V (length BTST_P_V),
       EPD_13IN3E_CS_ALL HIGH,
       DEV_Digital_Write EPD_CS_M_PIN LOW,
       EPD_13IN3E_SPI_Sand BOOST_VDDP_EN BOOST_VDDP_EN_V (length BOOST_VDDP_EN_V),
       EPD_13IN3E_CS_ALL HIGH,
       DEV_Digital_Write EPD_CS_M_PIN LOW,
       EPD_13IN3E_SPI_Sand BTST_N BTST_N_V (length BTST_N_V),
       EPD_13IN3E_CS_ALL HIGH,
       DEV_Digital_Write EPD_CS_M_PIN LOW,
       EPD_13IN3E_SPI_Sand BUCK_BOOST_VDDN BUCK_BOOST_VDDN_V (length BUCK_BOOST_VDDN_V),
       EPD_13IN3E_CS_ALL HIGH,
       DEV_Digital_Write EPD_CS_M_PIN LOW,
       EPD_13IN3E_SPI_Sand TFT_VCOM_POWER TFT_VCOM_POWER_V (length TFT_VCOM_POWER_V),
       EPD_13IN3E_CS_ALL HIGH]"

text \<open>
  \<^verbatim>\<open>Color = (color<<4)|color\<close> is stored in a \<^verbatim>\<open>UBYTE\<close>, so it is taken modulo 256.
  The fill loop \<^verbatim>\<open>for (i = 0; i < line_size; i++) line_buffer[i] = Color\<close> builds
  the line; the two row loops send it \<open>Height\<close> times each.
\<close>

function fill_line_buffer :: "nat \<Rightarrow> nat \<Rightarrow> UBYTE \<Rightarrow> UBYTE list" where
  "fill_line_buffer i line_size Color =
     (if i < line_size then Color # fill_line_buffer (i + 1) line_size Color else [])"
  by pat_completeness auto
termination
  by (relation "measure (\<lambda>(i, line_size, Color). line_size - i)") auto

definition EPD_13IN3E_Clear :: "(nat \<Rightarrow> level) \<Rightarrow> UBYTE \<Rightarrow> hw \<Rightarrow> hw option" where
  "EPD_13IN3E_Clear busy color s =
     (let Width = (if EPD_13IN3E_WIDTH mod 2 = 0 then EPD_13IN3E_WIDTH div 2
                   else EPD_13IN3E_WIDTH div 2 + 1);
          Height = EPD_13IN3E_HEIGHT;
          Color = push_bit 4 color OR color;
          line_size = Width div 2;
          line_buffer = fill_line_buffer 0 line_size Color
      in EPD_13IN3E_TurnOnDisplay busy
           (block
             [DEV_Digital_Write EPD_CS_M_PIN LOW,
              EPD_13IN3E_SendCommand 0x10,
              EPD_13IN3E_SendData2 (Some line_buffer) line_size ^^ Height,
              EPD_13IN3E_CS_ALL HIGH,
              DEV_Digital_Write EPD_CS_S_PIN LOW,
              EPD_13IN3E_SendCommand 0x10,
              EPD_13IN3E_SendData2 (Some line_buffer) line_size ^^ Height,
              EPD_13IN3E_CS_ALL HIGH] s))"

text \<open>\<^verbatim>\<open>EPD_PWR_PIN\<close> is defined in \<^verbatim>\<open>DEV_Config.h\<close>, so both \<^verbatim>\<open>#ifdef\<close> bodies are compiled in.\<close>

definition EPD_13IN3E_PowerOn :: "hw \<Rightarrow> hw" where
  "EPD_13IN3E_PowerOn =
     block
      [DEV_Digital_Write EPD_PWR_PIN HIGH,
       DEV_Delay_ms 100]"

definition EPD_13IN3E_Sleep :: "hw \<Rightarrow> hw" where
  "EPD_13IN3E_Sleep =
     block
      [EPD_13IN3E_CS_ALL LOW,
       EPD_13IN3E_SendCommand 0x07,
       EPD_13IN3E_SendData 0xA5,
       EPD_13IN3E_CS_ALL HIGH,
       DEV_Delay_ms 100]"

definition EPD_13IN3E_PowerOff :: "hw \<Rightarrow> hw" where
  "EPD_13IN3E_PowerOff =
     block
      [EPD_13IN3E_Sleep,
       DEV_Delay_ms 100,
       DEV_Digital_Write EPD_PWR_PIN LOW]"

definition EPD_13IN3E_BeginFrameM :: "hw \<Rightarrow> hw" where
  "EPD_13IN3E_BeginFrameM =
     block
      [DEV_Digital_Write EPD_CS_M_PIN LOW,
       EPD_13IN3E_SendCommand 0x10]"

definition EPD_13IN3E_WriteLineM :: "UBYTE list option \<Rightarrow> hw \<Rightarrow> hw" where
  "EPD_13IN3E_WriteLineM p300 s =
     (case p300 of None \<Rightarrow> s
      | Some _ \<Rightarrow> EPD_13IN3E_SendData2 p300 (EPD_13IN3E_WIDTH div 4) s)"

definition EPD_13IN3E_EndFrameM :: "hw \<Rightarrow> hw" where
  "EPD_13IN3E_EndFrameM = EPD_13IN3E_CS_ALL HIGH"

definition EPD_13IN3E_BeginFrameS :: "hw \<Rightarrow> hw" where
  "EPD_13IN3E_BeginFrameS =
     block
      [EPD_13IN3E_CS_ALL HIGH,
       DEV_Digital_Write EPD_CS_S_PIN LOW,
       EPD_13IN3E_SendCommand 0x10]"

definition EPD_13IN3E_WriteLineS :: "UBYTE list option \<Rightarrow> hw \<Rightarrow> hw" where
  "EPD_13IN3E_WriteLineS p300 s =
     (case p300 of None \<Rightarrow> s
      | Some _ \<Rightarrow> EPD_13IN3E_SendData2 p300 (EPD_13IN3E_WIDTH div 4) s)"

definition EPD_13IN3E_EndFrameS :: "hw \<Rightarrow> hw" where
  "EPD_13IN3E_EndFrameS = EPD_13IN3E_CS_ALL HIGH"

definition EPD_13IN3E_RefreshNow :: "(nat \<Rightarrow> level) \<Rightarrow> hw \<Rightarrow> hw option" where
  "EPD_13IN3E_RefreshNow busy s = EPD_13IN3E_TurnOnDisplay busy s"

section \<open>Application: polling and streaming (the sketch)\<close>

definition EPD_WIDTH :: nat where "EPD_WIDTH = 1200"
definition EPD_HEIGHT :: nat where "EPD_HEIGHT = 1600"
definition BYTES_PER_LINE_HALF :: nat where "BYTES_PER_LINE_HALF = EPD_WIDTH div 4"

text \<open>
  The line source is the HTTP body stream. Each call \<^verbatim>\<open>stream->readBytes(buf, n)\<close>
  blocks until \<open>n\<close> bytes have arrived or the stream times out, and returns what it
  got, at most \<open>n\<close> bytes. The stream is modelled by the list of the results of its
  successive reads; once the list is exhausted every read times out with 0 bytes.
\<close>

type_synonym line_source = "UBYTE list list"

definition readBytes :: "line_source \<Rightarrow> nat \<Rightarrow> UBYTE list \<times> line_source" where
  "readBytes stream n = (case stream of [] \<Rightarrow> ([], []) | c # cs \<Rightarrow> (take n c, cs))"

text \<open>
  The two \<^verbatim>\<open>for (int y = 0; y < EPD_HEIGHT; y++)\<close> loops of \<^verbatim>\<open>updateDisplay\<close>; the
  \<^verbatim>\<open>break\<close> on a short read leaves the loop with the counters as they are. The result
  is the rest of the stream, the byte counter and the transport.
\<close>

function master_loop :: "nat \<Rightarrow> line_source \<Rightarrow> nat \<Rightarrow> hw \<Rightarrow> line_source \<times> nat \<times> hw" where
  "master_loop y stream master_bytes s =
     (if y < EPD_HEIGHT then
        (case readBytes stream BYTES_PER_LINE_HALF of
           (line_buffer, stream') \<Rightarrow>
             if length line_buffer \<noteq> BYTES_PER_LINE_HALF then (stream', master_bytes, s)
             else master_loop (y + 1) stream' (master_bytes + length line_buffer)
                    (block [EPD_13IN3E_WriteLineM (Some line_buffer),
                            if y mod 100 = 0 then esp_task_wdt_reset else id] s))
      else (stream, master_bytes, s))"
  by pat_completeness auto
termination
  by (relation "measure (\<lambda>(y, stream, master_bytes, s). EPD_HEIGHT - y)") auto

function slave_loop :: "nat \<Rightarrow> line_source \<Rightarrow> nat \<Rightarrow> hw \<Rightarrow> line_source \<times> nat \<times> hw" where
  "slave_loop y stream slave_bytes s =
     (if y < EPD_HEIGHT then
        (case readBytes stream BYTES_PER_LINE_HALF of
           (line_buffer, stream') \<Rightarrow>
             if length line_buffer \<noteq> BYTES_PER_LINE_HALF then (stream', slave_bytes, s)
             else slave_loop (y + 1) stream' (slave_bytes + length line_buffer)
                    (block [EPD_13IN3E_WriteLineS (Some line_buffer),
                            if y mod 100 = 0 then esp_task_wdt_reset else id] s))
      else (stream, slave_bytes, s))"
  by pat_completeness auto
termination
  by (relation "measure (\<lambda>(y, stream, slave_bytes, s). EPD_HEIGHT - y)") auto

text \<open>
  \<^verbatim>\<open>updateDisplay\<close>: \<open>response_code\<close> is the result of \<^verbatim>\<open>http.GET()\<close> and \<open>stream\<close>
  the body. The result is \<open>None\<close> when the call never returns.
\<close>

definition updateDisplay ::
    "(nat \<Rightarrow> level) \<Rightarrow> int \<Rightarrow> line_source \<Rightarrow> hw \<Rightarrow> (bool \<times> hw) option" where
  "updateDisplay busy response_code stream s =
     (if response_code \<noteq> 200 then Some (False, s)
      else
        case master_loop 0 stream 0
               (block [EPD_13IN3E_PowerOn, EPD_13IN3E_Init, EPD_13IN3E_BeginFrameM] s) of
          (stream1, master_bytes, s1) \<Rightarrow>
        case slave_loop 0 stream1 0 (block [EPD_13IN3E_EndFrameM, EPD_13IN3E_BeginFrameS] s1) of
          (stream2, slave_bytes, s2) \<Rightarrow>
        let s3 = EPD_13IN3E_EndFrameS s2;
            expected_bytes = EPD_HEIGHT * BYTES_PER_LINE_HALF
        in if master_bytes = expected_bytes \<and> slave_bytes = expected_bytes
           then map_option (\<lambda>s4. (True, EPD_13IN3E_PowerOff s4)) (EPD_13IN3E_RefreshNow busy s3)
           else Some (False, s3))"

text \<open>
  \<^verbatim>\<open>checkForNewImage\<close>: \<open>response_code\<close> is the result of \<^verbatim>\<open>http.GET()\<close> on the info
  URL and \<open>current_hash\<close> the value \<^verbatim>\<open>parseJsonValue(response, "hash")\<close> extracted
  from the body; building the URL (battery, RSSI, heap, uptime) is left out.
  \<open>last_image_hash\<close> is the C string held in the global \<^verbatim>\<open>char last_image_hash[33]\<close>
  (the sketch of lines 1-492 of the file; strings are compared and copied as C strings).
  \<^verbatim>\<open>strncpy(last_image_hash, current_hash.c_str(), sizeof(last_image_hash) - 1)\<close>
  followed by the terminating NUL stores at most 32 characters.
\<close>

definition c_str :: "string \<Rightarrow> string" where
  "c_str str = takeWhile (\<lambda>c. c \<noteq> CHR 0x00) str"

definition sizeof_last_image_hash :: nat where
  "sizeof_last_image_hash = 33"

definition checkForNewImage :: "int \<Rightarrow> string \<Rightarrow> string \<Rightarrow> bool \<times> string" where
  "checkForNewImage response_code current_hash last_image_hash =
     (if response_code = 200 then
        if length current_hash > 0 then
          if c_str current_hash = last_image_hash then (False, last_image_hash)
          else (True, take (sizeof_last_image_hash - 1) (c_str current_hash))
        else (False, last_image_hash)
      else (False, last_image_hash))"

text \<open>
  One pass of \<^verbatim>\<open>loop()\<close>. Its own delays, watchdog resets and the light sleep touch
  neither the stored hash nor the panel and are left out. \<open>connected\<close> is
  \<^verbatim>\<open>WiFi.status() == WL_CONNECTED\<close>, \<open>info\<close> the reply to the info request and
  \<open>img\<close> the reply to the image request.
\<close>

record app =
  last_image_hash :: string
  panel :: hw

definition loop ::
    "bool \<Rightarrow> (nat \<Rightarrow> level) \<Rightarrow> int \<times> string \<Rightarrow> int \<times> line_source \<Rightarrow> app \<Rightarrow> app option" where
  "loop connected busy info img a =
     (if \<not> connected then Some a
      else
        case checkForNewImage (fst info) (snd info) (last_image_hash a) of
          (new_image, h) \<Rightarrow>
            if new_image then
              map_option (\<lambda>(ok, s). \<lparr>last_image_hash = h, panel = s\<rparr>)
                (updateDisplay busy (fst img) (snd img) (panel a))
            else Some \<lparr>last_image_hash = h, panel = panel a\<rparr>)"

section \<open>Vocabulary for the statements\<close>

text \<open>
  What one call of \<^verbatim>\<open>EPD_13IN3E_ReadBusyH\<close> leaves in the trace when the busy input
  reads low \<open>n\<close> times and then high: \<open>n\<close> polls, each followed by a 10ms delay and a
  watchdog reset, the successful read, and the 20ms settle delay.
\<close>

definition busy_wait :: "nat \<Rightarrow> event list" where
  "busy_wait n =
     concat (replicate n [Digital_Read EPD_BUSY_PIN LOW, Delay_ms 10, Wdt_Reset]) @
     [Digital_Read EPD_BUSY_PIN HIGH, Delay_ms 20]"

text \<open>From sample \<open>r\<close> on, the busy input reads low exactly \<open>n\<close> times and then high.\<close>

definition ready_after :: "(nat \<Rightarrow> level) \<Rightarrow> nat \<Rightarrow> nat \<Rightarrow> bool" where
  "ready_after busy r n \<longleftrightarrow> (\<forall>j<n. busy (r + j) = LOW) \<and> busy (r + n) = HIGH"

text \<open>Both chip-selects driven to a level, as \<^verbatim>\<open>EPD_13IN3E_CS_ALL\<close> does.\<close>

definition cs_all :: "level \<Rightarrow> event list" where
  "cs_all v = [Digital_Write EPD_CS_M_PIN v, Digital_Write EPD_CS_S_PIN v]"

text \<open>Bytes on the bus with given Master and Slave chip-select levels.\<close>

definition on_bus :: "level \<Rightarrow> level \<Rightarrow> UBYTE list \<Rightarrow> event list" where
  "on_bus m sl bs = map (SPI_Transfer m sl) bs"

text \<open>The bytes \<^verbatim>\<open>DEV_SPI_Write_nByte(data, len)\<close> reads through the pointer.\<close>

fun fetched :: "UBYTE list \<Rightarrow> nat \<Rightarrow> UBYTE list" where
  "fetched data 0 = []"
| "fetched data (Suc len) = hd data # fetched (tl data) len"

text \<open>
  The bytes one \<^verbatim>\<open>WriteLineM\<close>/\<^verbatim>\<open>WriteLineS\<close> call reads from its argument: none for a
  null pointer, else the first \<^verbatim>\<open>EPD_13IN3E_WIDTH/4\<close> bytes behind the pointer.
\<close>

fun line_bytes :: "UBYTE list option \<Rightarrow> UBYTE list" where
  "line_bytes None = []"
| "line_bytes (Some data) = fetched data (EPD_13IN3E_WIDTH div 4)"

text \<open>
  What a half's loop of \<^verbatim>\<open>updateDisplay\<close> accepts from a stream when it may run \<open>n\<close>
  times: the leading reads that fill the 300-byte line buffer, at most \<open>n\<close> of them.
  \<open>rest_after\<close> is what the loop leaves of the stream (a short read is consumed too).
\<close>

definition full_lines :: "nat \<Rightarrow> line_source \<Rightarrow> UBYTE list list" where
  "full_lines n stream =
     map (take BYTES_PER_LINE_HALF)
       (take n (takeWhile (\<lambda>c. BYTES_PER_LINE_HALF \<le> length c) stream))"

definition rest_after :: "nat \<Rightarrow> line_source \<Rightarrow> line_source" where
  "rest_after n stream =
     (if length (full_lines n stream) < n then drop (Suc (length (full_lines n stream))) stream
      else drop n stream)"

text \<open>The next read of the stream returns fewer than 300 bytes (0 when it is exhausted).\<close>

definition short_read :: "line_source \<Rightarrow> bool" where
  "short_read stream \<longleftrightarrow> (case stream of [] \<Rightarrow> True | c # _ \<Rightarrow> length c < BYTES_PER_LINE_HALF)"

text \<open>
  The trace of a half's loop that writes the lines \<open>ls\<close>, the first one at row \<open>y\<close>:
  each line's bytes on the bus, and a watchdog reset after every hundredth row.
\<close>

fun lines_events :: "level \<Rightarrow> level \<Rightarrow> nat \<Rightarrow> UBYTE list list \<Rightarrow> event list" where
  "lines_events m sl y [] = []"
| "lines_events m sl y (l # ls) =
     on_bus m sl l @ (if y mod 100 = 0 then [Wdt_Reset] else []) @ lines_events m sl (Suc y) ls"

text \<open>
  Sequences of calls to the public operations that address one controller at a time
  (and \<^verbatim>\<open>PowerOn\<close>, which touches no chip-select), run in order on the transport.
\<close>

datatype call =
    Call_PowerOn
  | Call_BeginFrameM
  | Call_WriteLineM "UBYTE list option"
  | Call_EndFrameM
  | Call_BeginFrameS
  | Call_WriteLineS "UBYTE list option"
  | Call_EndFrameS

fun do_call :: "call \<Rightarrow> hw \<Rightarrow> hw" where
  "do_call Call_PowerOn = EPD_13IN3E_PowerOn"
| "do_call Call_BeginFrameM = EPD_13IN3E_BeginFrameM"
| "do_call (Call_WriteLineM p300) = EPD_13IN3E_WriteLineM p300"
| "do_call Call_EndFrameM = EPD_13IN3E_EndFrameM"
| "do_call Call_BeginFrameS = EPD_13IN3E_BeginFrameS"
| "do_call (Call_WriteLineS p300) = EPD_13IN3E_WriteLineS p300"
| "do_call Call_EndFrameS = EPD_13IN3E_EndFrameS"

fun do_calls :: "call list \<Rightarrow> hw \<Rightarrow> hw" where
  "do_calls [] s = s"
| "do_calls (c # cs) s = do_calls cs (do_call c s)"

text \<open>Every \<^verbatim>\<open>BeginFrameM\<close> of the sequence is entered with the Slave chip-select high.\<close>

fun slave_high_at_BeginFrameM :: "call list \<Rightarrow> hw \<Rightarrow> bool" where
  "slave_high_at_BeginFrameM [] s = True"
| "slave_high_at_BeginFrameM (c # cs) s =
     ((c \<noteq> Call_BeginFrameM \<or> pins s EPD_CS_S_PIN = HIGH) \<and>
      slave_high_at_BeginFrameM cs (do_call c s))"

text \<open>
  The two chip-select lines over a stretch of trace: \<open>cs_step\<close> follows the pin writes
  from given starting levels (Master, Slave); \<open>never_both_asserted\<close> says that at no
  moment of the stretch both lines are low, and that no byte is clocked out with both
  lines low.
\<close>

fun cs_step :: "level \<times> level \<Rightarrow> event \<Rightarrow> level \<times> level" where
  "cs_step (m, sl) (Digital_Write p v) =
     (if p = EPD_CS_M_PIN then (v, sl) else if p = EPD_CS_S_PIN then (m, v) else (m, sl))"
| "cs_step (m, sl) (Digital_Read p v) = (m, sl)"
| "cs_step (m, sl) (Delay_ms n) = (m, sl)"
| "cs_step (m, sl) (SPI_Transfer a b d) = (m, sl)"
| "cs_step (m, sl) Wdt_Reset = (m, sl)"

fun byte_to_both :: "event \<Rightarrow> bool" where
  "byte_to_both (SPI_Transfer m sl d) = (m = LOW \<and> sl = LOW)"
| "byte_to_both (Digital_Write p v) = False"
| "byte_to_both (Digital_Read p v) = False"
| "byte_to_both (Delay_ms n) = False"
| "byte_to_both Wdt_Reset = False"

fun never_both_asserted :: "level \<times> level \<Rightarrow> event list \<Rightarrow> bool" where
  "never_both_asserted cs [] = (cs \<noteq> (LOW, LOW))"
| "never_both_asserted cs (e # es) =
     (cs \<noteq> (LOW, LOW) \<and> \<not> byte_to_both e \<and> never_both_asserted (cs_step cs e) es)"

definition cs_lines :: "hw \<Rightarrow> level \<times> level" where
  "cs_lines s = (pins s EPD_CS_M_PIN, pins s EPD_CS_S_PIN)"

section \<open>Basic facts\<close>

declare fill_line_buffer.simps [simp del]

declare master_loop.simps [simp del] slave_loop.simps [simp del]

lemmas opcode_defs =
  PSR_def PWR_epd_def POF_def PON_def BTST_N_def BTST_P_def DTM_def DRF_def CDI_def TCON_def
  TRES_def AN_TM_def AGID_def BUCK_BOOST_VDDN_def TFT_VCOM_POWER_def EN_BUF_def
  BOOST_VDDP_EN_def CCSET_def PWS_def CMD66_def

lemmas table_defs =
  PSR_V_def PWR_V_def POF_V_def DRF_V_def CDI_V_def TCON_V_def TRES_V_def CMD66_V_def
  EN_BUF_V_def CCSET_V_def PWS_V_def AN_TM_V_def AGID_V_def BTST_P_V_def BOOST_VDDP_EN_V_def
  BTST_N_V_def BUCK_BOOST_VDDN_V_def TFT_VCOM_POWER_V_def

lemmas prim_defs = DEV_Digital_Write_def DEV_Delay_ms_def esp_task_wdt_reset_def DEV_SPI_WriteByte_def

lemma length_fetched [simp]: "length (fetched data len) = len"
  by (induction len arbitrary: data) simp_all

lemma fetched_take: "len \<le> length data \<Longrightarrow> fetched data len = take len data"
proof (induction len arbitrary: data)
  case 0
  show ?case by simp
next
  case (Suc len)
  then obtain x xs where "data = x # xs" by (cases data) auto
  with Suc show ?case by simp
qed

lemma ready_after_0: "ready_after busy r 0 \<longleftrightarrow> busy r = HIGH"
  by (simp add: ready_after_def)

lemma ready_after_Suc: "ready_after busy r (Suc n) \<longleftrightarrow> busy r = LOW \<and> ready_after busy (Suc r) n"
proof -
  have "(\<forall>j<Suc n. busy (r + j) = LOW) \<longleftrightarrow> busy r = LOW \<and> (\<forall>j<n. busy (Suc r + j) = LOW)"
    by (auto simp: less_Suc_eq_0_disj)
  then show ?thesis by (simp add: ready_after_def)
qed

lemma poll_ready:
  "ready_after busy (reads s) n \<Longrightarrow>
   ReadBusyH_poll busy s =
     Some (s\<lparr>trace := trace s @
                concat (replicate n [Digital_Read EPD_BUSY_PIN LOW, Delay_ms 10, Wdt_Reset]) @
                [Digital_Read EPD_BUSY_PIN HIGH],
              reads := reads s + Suc n\<rparr>)"
proof (induction n arbitrary: s)
  case 0
  then show ?case
    by (subst ReadBusyH_poll.simps) (simp add: ready_after_0 DEV_Digital_Read_busy_def)
next
  case (Suc n)
  let ?s1 = "esp_task_wdt_reset (DEV_Delay_ms 10 (snd (DEV_Digital_Read_busy busy s)))"
  have s1: "reads ?s1 = Suc (reads s)" "pins ?s1 = pins s" "hw.more ?s1 = hw.more s"
    "trace ?s1 = trace s @ [Digital_Read EPD_BUSY_PIN (busy (reads s)), Delay_ms 10, Wdt_Reset]"
    by (simp_all add: DEV_Digital_Read_busy_def prim_defs)
  from Suc.prems have low: "busy (reads s) = LOW" and rest: "ready_after busy (reads ?s1) n"
    by (simp_all add: ready_after_Suc s1)
  have "ReadBusyH_poll busy s = ReadBusyH_poll busy ?s1"
    by (subst ReadBusyH_poll.simps) (simp add: low DEV_Digital_Read_busy_def)
  also note Suc.IH [OF rest]
  finally show ?case
    by (simp add: s1 low)
qed

lemma poll_returns_ready:
  assumes "ReadBusyH_poll busy s = Some s'"
  shows "\<exists>n. ready_after busy (reads s) n"
proof (rule ReadBusyH_poll.raw_induct [OF _ assms])
  fix poll busy s s'
  assume IH: "\<And>busy s s'. poll busy s = Some s' \<Longrightarrow> \<exists>n. ready_after busy (reads s) n"
    and eq: "(case DEV_Digital_Read_busy busy s of
               (v, s1) \<Rightarrow>
                 if v = LOW then poll busy (block [DEV_Delay_ms 10, esp_task_wdt_reset] s1)
                 else Some s1) = Some s'"
  show "\<exists>n. ready_after busy (reads s) n"
  proof (cases "busy (reads s)")
    case LOW
    let ?s1 = "esp_task_wdt_reset (DEV_Delay_ms 10 (snd (DEV_Digital_Read_busy busy s)))"
    from eq LOW have "poll busy ?s1 = Some s'"
      by (simp add: DEV_Digital_Read_busy_def)
    then obtain n where "ready_after busy (reads ?s1) n"
      using IH by blast
    then have "ready_after busy (Suc (reads s)) n"
      by (simp add: DEV_Digital_Read_busy_def prim_defs)
    with LOW have "ready_after busy (reads s) (Suc n)" by (simp add: ready_after_Suc)
    then show ?thesis ..
  next
    case HIGH
    then have "ready_after busy (reads s) 0" by (simp add: ready_after_0)
    then show ?thesis ..
  qed
qed

lemma Write_nByte_eq:
  "DEV_SPI_Write_nByte data len s =
     s\<lparr>trace := trace s @ on_bus (pins s EPD_CS_M_PIN) (pins s EPD_CS_S_PIN) (fetched data len)\<rparr>"
  by (induction len arbitrary: data s) (simp_all add: on_bus_def DEV_SPI_WriteByte_def)

lemma CS_ALL_eq:
  "EPD_13IN3E_CS_ALL v s =
     s\<lparr>pins := (pins s)(EPD_CS_M_PIN := v, EPD_CS_S_PIN := v), trace := trace s @ cs_all v\<rparr>"
  by (simp add: EPD_13IN3E_CS_ALL_def cs_all_def prim_defs)

lemma SPI_Sand_eq:
  "EPD_13IN3E_SPI_Sand Cmd buf Len s =
     s\<lparr>trace := trace s @
          on_bus (pins s EPD_CS_M_PIN) (pins s EPD_CS_S_PIN) (Cmd # fetched buf Len)\<rparr>"
  by (simp add: EPD_13IN3E_SPI_Sand_def Write_nByte_eq DEV_SPI_WriteByte_def on_bus_def)

lemmas step_eqs =
  prim_defs Write_nByte_eq CS_ALL_eq SPI_Sand_eq EPD_13IN3E_SendCommand_def
  EPD_13IN3E_SendData_def

lemma ReadBusyH_ready:
  "ready_after busy (reads s) n \<Longrightarrow>
   EPD_13IN3E_ReadBusyH busy s =
     Some (s\<lparr>trace := trace s @ busy_wait n, reads := reads s + Suc n\<rparr>)"
  by (simp add: EPD_13IN3E_ReadBusyH_def poll_ready busy_wait_def prim_defs)

lemma ReadBusyH_returns_ready:
  "EPD_13IN3E_ReadBusyH busy s = Some s' \<Longrightarrow> \<exists>n. ready_after busy (reads s) n"
  by (auto simp: EPD_13IN3E_ReadBusyH_def dest: poll_returns_ready)

lemma ReadBusyH_never_ready:
  "\<forall>k\<ge>reads s. busy k = LOW \<Longrightarrow> EPD_13IN3E_ReadBusyH busy s = None"
proof (rule ccontr)
  assume never: "\<forall>k\<ge>reads s. busy k = LOW" and "EPD_13IN3E_ReadBusyH busy s \<noteq> None"
  then obtain s' where "EPD_13IN3E_ReadBusyH busy s = Some s'" by auto
  then obtain n where "ready_after busy (reads s) n" by (auto dest: ReadBusyH_returns_ready)
  then have "busy (reads s + n) = HIGH" by (simp add: ready_after_def)
  with never show False by simp
qed

lemma ready_after_ex: "(\<exists>n. ready_after busy r n) \<longleftrightarrow> (\<exists>k\<ge>r. busy k = HIGH)"
proof
  assume "\<exists>n. ready_after busy r n"
  then obtain n where "busy (r + n) = HIGH" by (auto simp: ready_after_def)
  then show "\<exists>k\<ge>r. busy k = HIGH" by (intro exI [of _ "r + n"]) simp
next
  assume "\<exists>k\<ge>r. busy k = HIGH"
  then obtain k where k: "r \<le> k" "busy k = HIGH" by auto
  define m where "m = (LEAST j. busy (r + j) = HIGH)"
  have ex: "busy (r + (k - r)) = HIGH" using k by simp
  have "busy (r + m) = HIGH" unfolding m_def by (rule LeastI [of "\<lambda>j. busy (r + j) = HIGH", OF ex])
  moreover have "\<forall>j<m. busy (r + j) = LOW"
  proof (intro allI impI)
    fix j assume "j < m"
    then have "busy (r + j) \<noteq> HIGH" unfolding m_def by (rule not_less_Least)
    then show "busy (r + j) = LOW" by (cases "busy (r + j)") auto
  qed
  ultimately show "\<exists>n. ready_after busy r n" unfolding ready_after_def by blast
qed

lemma TurnOnDisplay_ready:
  assumes "ready_after busy (reads s) n1" and "ready_after busy (reads s + Suc n1) n2"
  shows "EPD_13IN3E_TurnOnDisplay busy s =
    Some (s\<lparr>pins := (pins s)(EPD_CS_M_PIN := HIGH, EPD_CS_S_PIN := HIGH),
            trace := trace s @
              cs_all LOW @ on_bus LOW LOW [0x04] @ cs_all HIGH @
              busy_wait n1 @
              [Delay_ms 50] @
              cs_all LOW @ on_bus LOW LOW [0x12, 0x00] @ cs_all HIGH @
              busy_wait n2 @
              cs_all LOW @ on_bus LOW LOW [0x02, 0x00] @ cs_all HIGH,
            reads := reads s + Suc n1 + Suc n2\<rparr>)"
proof -
  let ?a = "EPD_13IN3E_CS_ALL HIGH (EPD_13IN3E_SendCommand 0x04 (EPD_13IN3E_CS_ALL LOW s))"
  have a: "reads ?a = reads s"
    by (simp add: step_eqs)
  have 1: "EPD_13IN3E_ReadBusyH busy ?a =
      Some (?a\<lparr>trace := trace ?a @ busy_wait n1, reads := reads ?a + Suc n1\<rparr>)"
    by (rule ReadBusyH_ready) (simp only: a assms)
  let ?s1 = "?a\<lparr>trace := trace ?a @ busy_wait n1, reads := reads ?a + Suc n1\<rparr>"
  let ?b = "EPD_13IN3E_CS_ALL HIGH (EPD_13IN3E_SPI_Sand DRF DRF_V (length DRF_V)
              (EPD_13IN3E_CS_ALL LOW (DEV_Delay_ms 50 ?s1)))"
  have b: "reads ?b = reads s + Suc n1"
    by (simp add: step_eqs)
  have 2: "EPD_13IN3E_ReadBusyH busy ?b =
      Some (?b\<lparr>trace := trace ?b @ busy_wait n2, reads := reads ?b + Suc n2\<rparr>)"
    by (rule ReadBusyH_ready) (simp only: b assms)
  show ?thesis
    unfolding EPD_13IN3E_TurnOnDisplay_def block.simps 1 option.case 2
    by (simp add: step_eqs cs_all_def on_bus_def DRF_def DRF_V_def POF_def POF_V_def)
qed

lemma TurnOnDisplay_returns_ready:
  assumes "EPD_13IN3E_TurnOnDisplay busy s = Some s'"
  shows "\<exists>n1 n2. ready_after busy (reads s) n1 \<and> ready_after busy (reads s + Suc n1) n2"
proof -
  let ?a = "EPD_13IN3E_CS_ALL HIGH (EPD_13IN3E_SendCommand 0x04 (EPD_13IN3E_CS_ALL LOW s))"
  have a: "reads ?a = reads s" by (simp add: step_eqs)
  from assms obtain s1 where 1: "EPD_13IN3E_ReadBusyH busy ?a = Some s1"
    and rest: "(case EPD_13IN3E_ReadBusyH busy
       (EPD_13IN3E_CS_ALL HIGH (EPD_13IN3E_SPI_Sand DRF DRF_V (length DRF_V)
              (EPD_13IN3E_CS_ALL LOW (DEV_Delay_ms 50 s1)))) of
        None \<Rightarrow> None
      | Some s2 \<Rightarrow> Some (EPD_13IN3E_CS_ALL HIGH (EPD_13IN3E_SPI_Sand POF POF_V (length POF_V)
              (EPD_13IN3E_CS_ALL LOW s2)))) = Some s'"
    unfolding EPD_13IN3E_TurnOnDisplay_def block.simps by (auto split: option.splits)
  from 1 obtain n1 where n1: "ready_after busy (reads s) n1"
    using ReadBusyH_returns_ready [of busy ?a s1] by (auto simp only: a)
  then have "EPD_13IN3E_ReadBusyH busy ?a =
      Some (?a\<lparr>trace := trace ?a @ busy_wait n1, reads := reads ?a + Suc n1\<rparr>)"
    by (intro ReadBusyH_ready) (simp only: a)
  with 1 have s1: "reads s1 = reads s + Suc n1" by (auto simp: a)
  let ?b = "EPD_13IN3E_CS_ALL HIGH (EPD_13IN3E_SPI_Sand DRF DRF_V (length DRF_V)
              (EPD_13IN3E_CS_ALL LOW (DEV_Delay_ms 50 s1)))"
  have b: "reads ?b = reads s + Suc n1" by (simp add: step_eqs s1)
  from rest obtain s2 where "EPD_13IN3E_ReadBusyH busy ?b = Some s2"
    by (auto split: option.splits)
  then obtain n2 where "ready_after busy (reads s + Suc n1) n2"
    using ReadBusyH_returns_ready [of busy ?b s2] by (auto simp only: b)
  with n1 show ?thesis by blast
qed

lemma reads_hw0: "reads hw0 = 0"
  by (simp add: hw0_def DEV_Module_Init_def boot_def prim_defs)

lemma fetched_all [simp]: "fetched data (length data) = data"
  by (simp add: fetched_take)

lemma hw_trace_nil [simp]: "s\<lparr>trace := trace s @ []\<rparr> = (s :: hw)"
  by simp

lemma SendData2_eq:
  "EPD_13IN3E_SendData2 (Some data) Len s =
     s\<lparr>trace := trace s @ on_bus (pins s EPD_CS_M_PIN) (pins s EPD_CS_S_PIN) (fetched data Len)\<rparr>"
  by (cases Len) (simp_all add: EPD_13IN3E_SendData2_def Write_nByte_eq on_bus_def del: DEV_SPI_Write_nByte.simps)

lemma WriteLineM_eq:
  "EPD_13IN3E_WriteLineM p300 s =
     s\<lparr>trace := trace s @ on_bus (pins s EPD_CS_M_PIN) (pins s EPD_CS_S_PIN) (line_bytes p300)\<rparr>"
  by (cases p300) (simp_all add: EPD_13IN3E_WriteLineM_def SendData2_eq on_bus_def)

lemma WriteLineS_eq:
  "EPD_13IN3E_WriteLineS p300 s =
     s\<lparr>trace := trace s @ on_bus (pins s EPD_CS_M_PIN) (pins s EPD_CS_S_PIN) (line_bytes p300)\<rparr>"
  by (cases p300) (simp_all add: EPD_13IN3E_WriteLineS_def SendData2_eq on_bus_def)

lemma fold_WriteLineM:
  "fold EPD_13IN3E_WriteLineM bufs s =
     s\<lparr>trace := trace s @
          on_bus (pins s EPD_CS_M_PIN) (pins s EPD_CS_S_PIN) (concat (map line_bytes bufs))\<rparr>"
  by (induction bufs arbitrary: s) (simp_all add: WriteLineM_eq on_bus_def)

lemma fold_WriteLineS:
  "fold EPD_13IN3E_WriteLineS bufs s =
     s\<lparr>trace := trace s @
          on_bus (pins s EPD_CS_M_PIN) (pins s EPD_CS_S_PIN) (concat (map line_bytes bufs))\<rparr>"
  by (induction bufs arbitrary: s) (simp_all add: WriteLineS_eq on_bus_def)

lemma length_line_bytes: "b \<noteq> None \<Longrightarrow> length (line_bytes b) = 300"
  by (cases b) (simp_all add: EPD_13IN3E_WIDTH_def)

lemma length_concat_const:
  "\<forall>x\<in>set xs. length (f x) = n \<Longrightarrow> length (concat (map f xs)) = n * length xs"
  by (induction xs) simp_all

lemma line_bytes_take: "b \<noteq> None \<Longrightarrow> 300 \<le> length (the b) \<Longrightarrow> line_bytes b = take 300 (the b)"
  by (cases b) (simp_all add: EPD_13IN3E_WIDTH_def fetched_take)

lemma concat_line_bytes_take:
  "\<forall>b\<in>set bufs. b \<noteq> None \<and> 300 \<le> length (the b) \<Longrightarrow>
   concat (map line_bytes bufs) = concat (map (\<lambda>b. take 300 (the b)) bufs)"
  by (induction bufs) (simp_all add: line_bytes_take)

lemma fill_line_buffer_eq: "fill_line_buffer i line_size Color = replicate (line_size - i) Color"
proof (induction i line_size Color rule: fill_line_buffer.induct)
  case (1 i line_size Color)
  show ?case
  proof (cases "i < line_size")
    case True
    then have "line_size - i = Suc (line_size - (i + 1))" by simp
    with True 1 show ?thesis by (subst fill_line_buffer.simps) simp
  next
    case False
    then show ?thesis by (subst fill_line_buffer.simps) simp
  qed
qed

lemma funpow_SendData2:
  "(EPD_13IN3E_SendData2 (Some data) Len ^^ h) s =
     s\<lparr>trace := trace s @
          on_bus (pins s EPD_CS_M_PIN) (pins s EPD_CS_S_PIN)
            (concat (replicate h (fetched data Len)))\<rparr>"
proof (induction h arbitrary: s)
  case 0
  show ?case by (simp add: on_bus_def)
next
  case (Suc h)
  show ?case
    by (simp only: funpow_Suc_right o_apply Suc.IH) (simp add: SendData2_eq on_bus_def)
qed

lemma valid_color_pack:
  "color \<in> {0, 1, 2, 3, 5, 6} \<Longrightarrow>
   unat (push_bit 4 color OR color :: UBYTE) = 16 * unat color + unat color"
  by auto

lemma Clear_streams:
  "EPD_13IN3E_Clear busy color s =
     EPD_13IN3E_RefreshNow busy
       (s\<lparr>pins := (pins s)(EPD_CS_M_PIN := HIGH, EPD_CS_S_PIN := HIGH),
          trace := trace s @
            [Digital_Write EPD_CS_M_PIN LOW] @
            on_bus LOW (pins s EPD_CS_S_PIN)
              (0x10 # concat (replicate 1600 (replicate 300 (push_bit 4 color OR color)))) @
            cs_all HIGH @
            [Digital_Write EPD_CS_S_PIN LOW] @
            on_bus HIGH LOW
              (0x10 # concat (replicate 1600 (replicate 300 (push_bit 4 color OR color)))) @
            cs_all HIGH\<rparr>)"
proof -
  have line: "fetched (fill_line_buffer 0 300 (push_bit 4 color OR color)) 300 =
      replicate 300 (push_bit 4 color OR color)"
    by (simp add: fill_line_buffer_eq fetched_take)
  have dims: "(if EPD_13IN3E_WIDTH mod 2 = 0 then EPD_13IN3E_WIDTH div 2
                   else EPD_13IN3E_WIDTH div 2 + 1) div 2 = 300" "EPD_13IN3E_HEIGHT = 1600"
    by (simp_all add: EPD_13IN3E_WIDTH_def EPD_13IN3E_HEIGHT_def)
  show ?thesis
    unfolding EPD_13IN3E_Clear_def Let_def dims EPD_13IN3E_RefreshNow_def block.simps
      funpow_SendData2 line
    by (simp add: step_eqs on_bus_def cs_all_def)
qed

lemma pins_hw0: "pins hw0 EPD_CS_M_PIN = HIGH" "pins hw0 EPD_CS_S_PIN = HIGH"
  by (simp_all add: hw0_def DEV_Module_Init_def boot_def prim_defs)

lemma pins_Reset: "pins (EPD_13IN3E_Reset s) p = (if p = EPD_RST_PIN then HIGH else pins s p)"
  by (simp add: EPD_13IN3E_Reset_def prim_defs)

lemma trace_hw0: "trace hw0 = [Digital_Write EPD_CS_M_PIN HIGH, Digital_Write EPD_CS_S_PIN HIGH,
   Digital_Write EPD_DC_PIN HIGH, Digital_Write EPD_RST_PIN HIGH, Digital_Write EPD_PWR_PIN HIGH]"
  by (simp add: hw0_def DEV_Module_Init_def boot_def prim_defs)

lemma BYTES_300: "BYTES_PER_LINE_HALF = 300"
  by (simp add: BYTES_PER_LINE_HALF_def EPD_WIDTH_def)

lemma full_lines_Nil [simp]: "full_lines n [] = []" "full_lines 0 stream = []"
  by (simp_all add: full_lines_def)

lemma full_lines_Cons:
  "full_lines (Suc n) (c # cs) =
     (if BYTES_PER_LINE_HALF \<le> length c then take BYTES_PER_LINE_HALF c # full_lines n cs else [])"
  by (simp add: full_lines_def)

lemma rest_after_simps:
  "rest_after 0 stream = stream"
  "rest_after (Suc n) [] = []"
  "rest_after (Suc n) (c # cs) = (if BYTES_PER_LINE_HALF \<le> length c then rest_after n cs else cs)"
  by (simp_all add: rest_after_def full_lines_Cons)

lemma write_full_line:
  "length l = BYTES_PER_LINE_HALF \<Longrightarrow>
   EPD_13IN3E_WriteLineM (Some l) s =
     s\<lparr>trace := trace s @ on_bus (pins s EPD_CS_M_PIN) (pins s EPD_CS_S_PIN) l\<rparr>"
  "length l = BYTES_PER_LINE_HALF \<Longrightarrow>
   EPD_13IN3E_WriteLineS (Some l) s =
     s\<lparr>trace := trace s @ on_bus (pins s EPD_CS_M_PIN) (pins s EPD_CS_S_PIN) l\<rparr>"
  by (simp_all add: WriteLineM_eq WriteLineS_eq BYTES_300 EPD_13IN3E_WIDTH_def fetched_take)

lemma master_loop_eq:
  "master_loop y stream master_bytes s =
     (rest_after (EPD_HEIGHT - y) stream,
      master_bytes + BYTES_PER_LINE_HALF * length (full_lines (EPD_HEIGHT - y) stream),
      s\<lparr>trace := trace s @
           lines_events (pins s EPD_CS_M_PIN) (pins s EPD_CS_S_PIN) y
             (full_lines (EPD_HEIGHT - y) stream)\<rparr>)"
proof (induction y stream master_bytes s rule: master_loop.induct)
  case (1 y stream master_bytes s)
  show ?case
  proof (cases "y < EPD_HEIGHT")
    case False
    then show ?thesis
      by (subst master_loop.simps) (simp add: rest_after_simps)
  next
    case True
    then obtain n where n: "EPD_HEIGHT - y = Suc n" "EPD_HEIGHT - Suc y = n"
      by (cases "EPD_HEIGHT - y") auto
    show ?thesis
    proof (cases stream)
      case Nil
      with True show ?thesis
        by (subst master_loop.simps) (simp add: readBytes_def BYTES_300 rest_after_simps n)
    next
      case (Cons c cs)
      show ?thesis
      proof (cases "BYTES_PER_LINE_HALF \<le> length c")
        case short: False
        with True Cons show ?thesis
          by (subst master_loop.simps)
             (simp add: readBytes_def rest_after_simps full_lines_Cons n)
      next
        case full: True
        let ?l = "take BYTES_PER_LINE_HALF c"
        let ?s' = "block [EPD_13IN3E_WriteLineM (Some ?l),
                          if y mod 100 = 0 then esp_task_wdt_reset else id] s"
        from full have len: "length ?l = BYTES_PER_LINE_HALF" by simp
        have rb: "readBytes stream BYTES_PER_LINE_HALF = (?l, cs)"
          by (simp add: readBytes_def Cons)
        have s': "?s' = s\<lparr>trace := trace s @
            on_bus (pins s EPD_CS_M_PIN) (pins s EPD_CS_S_PIN) ?l @
            (if y mod 100 = 0 then [Wdt_Reset] else [])\<rparr>"
          by (simp add: write_full_line [OF len] esp_task_wdt_reset_def)
        have "master_loop y stream master_bytes s =
            master_loop (y + 1) cs (master_bytes + length ?l) ?s'"
          by (subst master_loop.simps) (simp only: True if_True rb prod.case len simp_thms if_False)
        also have "\<dots> =
            (rest_after (EPD_HEIGHT - (y + 1)) cs,
             master_bytes + length ?l +
               BYTES_PER_LINE_HALF * length (full_lines (EPD_HEIGHT - (y + 1)) cs),
             ?s'\<lparr>trace := trace ?s' @
                lines_events (pins ?s' EPD_CS_M_PIN) (pins ?s' EPD_CS_S_PIN) (y + 1)
                  (full_lines (EPD_HEIGHT - (y + 1)) cs)\<rparr>)"
          by (rule "1.IH" [OF True rb [symmetric]]) (simp only: len simp_thms)
        finally show ?thesis
          unfolding s' by (simp add: n Cons full full_lines_Cons rest_after_simps len)
      qed
    qed
  qed
qed

lemma slave_loop_eq:
  "slave_loop y stream slave_bytes s =
     (rest_after (EPD_HEIGHT - y) stream,
      slave_bytes + BYTES_PER_LINE_HALF * length (full_lines (EPD_HEIGHT - y) stream),
      s\<lparr>trace := trace s @
           lines_events (pins s EPD_CS_M_PIN) (pins s EPD_CS_S_PIN) y
             (full_lines (EPD_HEIGHT - y) stream)\<rparr>)"
proof (induction y stream slave_bytes s rule: slave_loop.induct)
  case (1 y stream slave_bytes s)
  show ?case
  proof (cases "y < EPD_HEIGHT")
    case False
    then show ?thesis
      by (subst slave_loop.simps) (simp add: rest_after_simps)
  next
    case True
    then obtain n where n: "EPD_HEIGHT - y = Suc n" "EPD_HEIGHT - Suc y = n"
      by (cases "EPD_HEIGHT - y") auto
    show ?thesis
    proof (cases stream)
      case Nil
      with True show ?thesis
        by (subst slave_loop.simps) (simp add: readBytes_def BYTES_300 rest_after_simps n)
    next
      case (Cons c cs)
      show ?thesis
      proof (cases "BYTES_PER_LINE_HALF \<le> length c")
        case short: False
        with True Cons show ?thesis
          by (subst slave_loop.simps)
             (simp add: readBytes_def rest_after_simps full_lines_Cons n)
      next
        case full: True
        let ?l = "take BYTES_PER_LINE_HALF c"
        let ?s' = "block [EPD_13IN3E_WriteLineS (Some ?l),
                          if y mod 100 = 0 then esp_task_wdt_reset else id] s"
        from full have len: "length ?l = BYTES_PER_LINE_HALF" by simp
        have rb: "readBytes stream BYTES_PER_LINE_HALF = (?l, cs)"
          by (simp add: readBytes_def Cons)
        have s': "?s' = s\<lparr>trace := trace s @
            on_bus (pins s EPD_CS_M_PIN) (pins s EPD_CS_S_PIN) ?l @
            (if y mod 100 = 0 then [Wdt_Reset] else [])\<rparr>"
          by (simp add: write_full_line [OF len] esp_task_wdt_reset_def)
        have "slave_loop y stream slave_bytes s =
            slave_loop (y + 1) cs (slave_bytes + length ?l) ?s'"
          by (subst slave_loop.simps) (simp only: True if_True rb prod.case len simp_thms if_False)
        also have "\<dots> =
            (rest_after (EPD_HEIGHT - (y + 1)) cs,
             slave_bytes + length ?l +
               BYTES_PER_LINE_HALF * length (full_lines (EPD_HEIGHT - (y + 1)) cs),
             ?s'\<lparr>trace := trace ?s' @
                lines_events (pins ?s' EPD_CS_M_PIN) (pins ?s' EPD_CS_S_PIN) (y + 1)
                  (full_lines (EPD_HEIGHT - (y + 1)) cs)\<rparr>)"
          by (rule "1.IH" [OF True rb [symmetric]]) (simp only: len simp_thms)
        finally show ?thesis
          unfolding s' by (simp add: n Cons full full_lines_Cons rest_after_simps len)
      qed
    qed
  qed
qed

lemma full_lines_short:
  "\<forall>l\<in>set fulls. length l = BYTES_PER_LINE_HALF \<Longrightarrow> short_read rest \<Longrightarrow> length fulls < n \<Longrightarrow>
   full_lines n (fulls @ rest) = fulls \<and> rest_after n (fulls @ rest) = tl rest"
proof (induction fulls arbitrary: n)
  case Nil
  then obtain m where "n = Suc m" by (cases n) auto
  with Nil show ?case
    by (cases rest) (simp_all add: short_read_def full_lines_Cons rest_after_simps)
next
  case (Cons l ls)
  then obtain m where "n = Suc m" by (cases n) auto
  with Cons show ?case
    by (simp add: full_lines_Cons rest_after_simps)
qed

lemma full_lines_complete:
  "\<forall>l\<in>set ls. length l = BYTES_PER_LINE_HALF \<Longrightarrow>
   full_lines (length ls) (ls @ tail) = ls \<and> rest_after (length ls) (ls @ tail) = tail"
  by (induction ls) (simp_all add: full_lines_Cons rest_after_simps)

lemma Init_state:
  "pins (EPD_13IN3E_Init s) EPD_CS_M_PIN = HIGH"
  "pins (EPD_13IN3E_Init s) EPD_CS_S_PIN = HIGH"
  "reads (EPD_13IN3E_Init s) = reads s"
  by (simp_all add: EPD_13IN3E_Init_def EPD_13IN3E_Reset_def step_eqs)

lemma reads_PowerOn: "reads (EPD_13IN3E_PowerOn s) = reads s"
  by (simp add: EPD_13IN3E_PowerOn_def prim_defs)

lemma expected_bytes_iff:
  "BYTES_PER_LINE_HALF * k = EPD_HEIGHT * BYTES_PER_LINE_HALF \<longleftrightarrow> k = EPD_HEIGHT"
  by (simp add: BYTES_300)

lemma updateDisplay_incomplete:
  assumes "length (full_lines EPD_HEIGHT stream) < EPD_HEIGHT \<or>
           length (full_lines EPD_HEIGHT (rest_after EPD_HEIGHT stream)) < EPD_HEIGHT"
  shows "\<exists>s'. updateDisplay busy 200 stream s = Some (False, s') \<and>
     trace s' = trace (EPD_13IN3E_Init (EPD_13IN3E_PowerOn s)) @
       [Digital_Write EPD_CS_M_PIN LOW] @ on_bus LOW HIGH [0x10] @
       lines_events LOW HIGH 0 (full_lines EPD_HEIGHT stream) @
       cs_all HIGH @
       cs_all HIGH @ [Digital_Write EPD_CS_S_PIN LOW] @ on_bus HIGH LOW [0x10] @
       lines_events HIGH LOW 0 (full_lines EPD_HEIGHT (rest_after EPD_HEIGHT stream)) @
       cs_all HIGH \<and>
     reads s' = reads s"
proof -
  from assms have "\<not> (length (full_lines EPD_HEIGHT stream) = EPD_HEIGHT \<and>
      length (full_lines EPD_HEIGHT (rest_after EPD_HEIGHT stream)) = EPD_HEIGHT)"
    by auto
  then show ?thesis
    unfolding updateDisplay_def
    by (simp add: master_loop_eq slave_loop_eq expected_bytes_iff Let_def
        EPD_13IN3E_BeginFrameM_def EPD_13IN3E_EndFrameM_def EPD_13IN3E_BeginFrameS_def
        EPD_13IN3E_EndFrameS_def step_eqs Init_state reads_PowerOn on_bus_def cs_all_def)
qed

lemma checkForNewImage_new:
  "0 < length h \<Longrightarrow> c_str h \<noteq> stored \<Longrightarrow>
   checkForNewImage 200 h stored = (True, take 32 (c_str h))"
  by (simp add: checkForNewImage_def sizeof_last_image_hash_def)

lemma checkForNewImage_same:
  "length (c_str h) \<le> 32 \<Longrightarrow> checkForNewImage 200 h (take 32 (c_str h)) = (False, take 32 (c_str h))"
  by (simp add: checkForNewImage_def sizeof_last_image_hash_def)

lemma nba_start: "never_both_asserted cs es \<Longrightarrow> cs \<noteq> (LOW, LOW)"
  by (cases es) simp_all

lemma nba_append:
  "never_both_asserted cs (es @ fs) \<longleftrightarrow>
     never_both_asserted cs es \<and> never_both_asserted (foldl cs_step cs es) fs"
  by (induction es arbitrary: cs) (auto dest: nba_start)

lemma cs_step_other [simp]:
  "cs_step cs (SPI_Transfer a b d) = cs"
  "cs_step cs (Digital_Read p v) = cs"
  "cs_step cs (Delay_ms n) = cs"
  "cs_step cs Wdt_Reset = cs"
  by (cases cs; simp)+

lemma nba_on_bus:
  "(m, sl) \<noteq> (LOW, LOW) \<Longrightarrow> cs \<noteq> (LOW, LOW) \<Longrightarrow> never_both_asserted cs (on_bus m sl bs)"
  by (induction bs) (auto simp: on_bus_def)

lemma cs_step_on_bus: "foldl cs_step cs (on_bus m sl bs) = cs"
  by (induction bs) (simp_all add: on_bus_def)

lemma level_not_LOW: "v \<noteq> LOW \<longleftrightarrow> v = HIGH"
  by (cases v) simp_all

lemma do_call_exclusive:
  assumes "cs_lines s \<noteq> (LOW, LOW)" and "c \<noteq> Call_BeginFrameM \<or> pins s EPD_CS_S_PIN = HIGH"
  shows "\<exists>es. trace (do_call c s) = trace s @ es \<and> never_both_asserted (cs_lines s) es \<and>
              foldl cs_step (cs_lines s) es = cs_lines (do_call c s)"
proof (cases c)
  case Call_PowerOn
  with assms show ?thesis
    by (simp add: EPD_13IN3E_PowerOn_def prim_defs cs_lines_def)
next
  case Call_BeginFrameM
  with assms show ?thesis
    by (simp add: EPD_13IN3E_BeginFrameM_def step_eqs cs_lines_def)
next
  case (Call_WriteLineM b)
  with assms show ?thesis
    by (auto simp: WriteLineM_eq cs_lines_def cs_step_on_bus intro!: nba_on_bus)
next
  case Call_EndFrameM
  with assms show ?thesis
    by (simp add: EPD_13IN3E_EndFrameM_def step_eqs cs_lines_def cs_all_def)
next
  case Call_BeginFrameS
  with assms show ?thesis
    by (simp add: EPD_13IN3E_BeginFrameS_def step_eqs cs_lines_def cs_all_def)
next
  case (Call_WriteLineS b)
  with assms show ?thesis
    by (auto simp: WriteLineS_eq cs_lines_def cs_step_on_bus intro!: nba_on_bus)
next
  case Call_EndFrameS
  with assms show ?thesis
    by (simp add: EPD_13IN3E_EndFrameS_def step_eqs cs_lines_def cs_all_def)
qed

lemma do_calls_exclusive:
  "cs_lines s \<noteq> (LOW, LOW) \<Longrightarrow> slave_high_at_BeginFrameM cs s \<Longrightarrow>
   \<exists>es. trace (do_calls cs s) = trace s @ es \<and> never_both_asserted (cs_lines s) es \<and>
        foldl cs_step (cs_lines s) es = cs_lines (do_calls cs s)"
proof (induction cs arbitrary: s)
  case Nil
  then show ?case by simp
next
  case (Cons c cs)
  from Cons.prems obtain es where es: "trace (do_call c s) = trace s @ es"
    "never_both_asserted (cs_lines s) es" "foldl cs_step (cs_lines s) es = cs_lines (do_call c s)"
    using do_call_exclusive [of s c] by auto
  have "cs_lines (do_call c s) \<noteq> (LOW, LOW)"
  proof
    assume both: "cs_lines (do_call c s) = (LOW, LOW)"
    have "never_both_asserted (cs_lines s) (es @ [])" using es(2) by simp
    then have "never_both_asserted (foldl cs_step (cs_lines s) es) []"
      unfolding nba_append by simp
    with es(3) both show False by simp
  qed
  with Cons.IH [of "do_call c s"] Cons.prems obtain fs where
    fs: "trace (do_calls cs (do_call c s)) = trace (do_call c s) @ fs"
    "never_both_asserted (cs_lines (do_call c s)) fs"
    "foldl cs_step (cs_lines (do_call c s)) fs = cs_lines (do_calls cs (do_call c s))"
    by auto
  show ?case
    by (rule exI [of _ "es @ fs"]) (simp add: es fs nba_append)
qed

section \<open>Claims\<close>

text \<open>
  C1. \<^verbatim>\<open>RefreshNow\<close> returns exactly when the busy input, sampled from the current
  position, reads high after some \<open>n1\<close> low samples and, after that, high again after
  some \<open>n2\<close> low samples; the transport trace of the call is then: both chip-selects
  asserted, opcode 0x04 with no parameter, both deasserted; the busy-wait; a 50ms delay;
  opcode 0x12 with the single parameter 0x00 under both chip-selects; the second
  busy-wait; opcode 0x02 with the single parameter 0x00 under both chip-selects, and
  nothing after it (no busy-wait follows the power-off command).
\<close>

theorem RefreshNow_trace:
  "EPD_13IN3E_RefreshNow busy s = Some s' \<longleftrightarrow>
     (\<exists>n1 n2. ready_after busy (reads s) n1 \<and> ready_after busy (reads s + Suc n1) n2 \<and>
        s' = s\<lparr>pins := (pins s)(EPD_CS_M_PIN := HIGH, EPD_CS_S_PIN := HIGH),
               trace := trace s @
                 cs_all LOW @ on_bus LOW LOW [0x04] @ cs_all HIGH @
                 busy_wait n1 @
                 [Delay_ms 50] @
                 cs_all LOW @ on_bus LOW LOW [0x12, 0x00] @ cs_all HIGH @
                 busy_wait n2 @
                 cs_all LOW @ on_bus LOW LOW [0x02, 0x00] @ cs_all HIGH,
               reads := reads s + Suc n1 + Suc n2\<rparr>)"
  (is "?L \<longleftrightarrow> ?R")
proof
  assume ?L
  then have ret: "EPD_13IN3E_TurnOnDisplay busy s = Some s'"
    by (simp add: EPD_13IN3E_RefreshNow_def)
  then obtain n1 n2 where n: "ready_after busy (reads s) n1" "ready_after busy (reads s + Suc n1) n2"
    using TurnOnDisplay_returns_ready by blast
  from TurnOnDisplay_ready [OF n] ret n show ?R by auto
next
  assume ?R
  then show ?L
    by (auto simp: EPD_13IN3E_RefreshNow_def TurnOnDisplay_ready)
qed

theorem RefreshNow_trace_witness:
  "EPD_13IN3E_RefreshNow (\<lambda>k. if k = 0 then LOW else HIGH) hw0 =
     Some (hw0\<lparr>pins := (pins hw0)(EPD_CS_M_PIN := HIGH, EPD_CS_S_PIN := HIGH),
               trace := trace hw0 @
                 cs_all LOW @ on_bus LOW LOW [0x04] @ cs_all HIGH @
                 busy_wait 1 @
                 [Delay_ms 50] @
                 cs_all LOW @ on_bus LOW LOW [0x12, 0x00] @ cs_all HIGH @
                 busy_wait 0 @
                 cs_all LOW @ on_bus LOW LOW [0x02, 0x00] @ cs_all HIGH,
               reads := 3\<rparr>)"
  by (rule RefreshNow_trace [THEN iffD2], rule exI [of _ 1], rule exI [of _ 0])
     (simp add: ready_after_def reads_hw0)

text \<open>
  C2 (amended). \<^verbatim>\<open>BeginFrameS\<close> first drives both chip-select lines high
  (deasserted) and only then drives the Slave line low, so that the write-RAM opcode
  0x10 goes out with the Slave selected and the Master deselected, whatever the lines
  were before the call; through any following sequence of \<^verbatim>\<open>WriteLineS\<close> calls the
  lines stay so, and every data byte goes to the Slave alone. Moreover, for every
  sequence of calls to \<^verbatim>\<open>PowerOn\<close>, \<^verbatim>\<open>BeginFrameM\<close>, \<^verbatim>\<open>WriteLineM\<close>, \<^verbatim>\<open>EndFrameM\<close>,
  \<^verbatim>\<open>BeginFrameS\<close>, \<^verbatim>\<open>WriteLineS\<close> and \<^verbatim>\<open>EndFrameS\<close> that starts with the two lines not
  both low and enters every \<^verbatim>\<open>BeginFrameM\<close> with the Slave line high, the two lines are
  never both low at the same time and no byte is clocked out with both low.
\<close>

theorem BeginFrameS_selects_slave_only:
  "trace (EPD_13IN3E_BeginFrameS s) = trace s @
     [Digital_Write EPD_CS_M_PIN HIGH, Digital_Write EPD_CS_S_PIN HIGH,
      Digital_Write EPD_CS_S_PIN LOW, SPI_Transfer HIGH LOW 0x10]
   \<and> pins (EPD_13IN3E_BeginFrameS s) EPD_CS_M_PIN = HIGH
   \<and> pins (EPD_13IN3E_BeginFrameS s) EPD_CS_S_PIN = LOW
   \<and> trace (fold EPD_13IN3E_WriteLineS bufs (EPD_13IN3E_BeginFrameS s)) =
       trace (EPD_13IN3E_BeginFrameS s) @ on_bus HIGH LOW (concat (map line_bytes bufs))
   \<and> pins (fold EPD_13IN3E_WriteLineS bufs (EPD_13IN3E_BeginFrameS s)) EPD_CS_M_PIN = HIGH
   \<and> pins (fold EPD_13IN3E_WriteLineS bufs (EPD_13IN3E_BeginFrameS s)) EPD_CS_S_PIN = LOW
   \<and> (cs_lines s \<noteq> (LOW, LOW) \<and> slave_high_at_BeginFrameM cs s \<longrightarrow>
        never_both_asserted (cs_lines s) (drop (length (trace s)) (trace (do_calls cs s))))"
proof -
  have "never_both_asserted (cs_lines s) (drop (length (trace s)) (trace (do_calls cs s)))"
    if "cs_lines s \<noteq> (LOW, LOW)" and "slave_high_at_BeginFrameM cs s"
  proof -
    from do_calls_exclusive [OF that] obtain es
      where "trace (do_calls cs s) = trace s @ es" "never_both_asserted (cs_lines s) es"
      by blast
    then show ?thesis by simp
  qed
  then show ?thesis
    by (simp add: fold_WriteLineS EPD_13IN3E_BeginFrameS_def EPD_13IN3E_CS_ALL_def
        EPD_13IN3E_SendCommand_def prim_defs)
qed

theorem BeginFrameS_selects_slave_only_witness:
  "never_both_asserted (cs_lines hw0)
     (drop (length (trace hw0))
        (trace (do_calls
          [Call_PowerOn, Call_BeginFrameM, Call_WriteLineM (Some (replicate 300 0x11)),
           Call_EndFrameM, Call_BeginFrameS, Call_WriteLineS (Some (replicate 300 0x22)),
           Call_EndFrameS] hw0)))"
proof -
  let ?cs = "[Call_PowerOn, Call_BeginFrameM, Call_WriteLineM (Some (replicate 300 0x11)),
           Call_EndFrameM, Call_BeginFrameS, Call_WriteLineS (Some (replicate 300 0x22)),
           Call_EndFrameS]"
  have h: "cs_lines hw0 \<noteq> (LOW, LOW) \<and> slave_high_at_BeginFrameM ?cs hw0"
    by (simp add: cs_lines_def pins_hw0 EPD_13IN3E_PowerOn_def prim_defs)
  from BeginFrameS_selects_slave_only [of hw0 "[]" ?cs] h show ?thesis
    by blast
qed

text \<open>
  C2 as stated fails: the operations addressed to both controllers assert both
  chip-selects at once. \<^verbatim>\<open>Sleep\<close>, called on the board as \<^verbatim>\<open>DEV_Module_Init\<close> leaves
  it, drives both lines low and clocks the opcode 0x07 out with both low.
\<close>

theorem cs_never_both_counterexample:
  "SPI_Transfer LOW LOW 0x07 \<in> set (trace (EPD_13IN3E_Sleep hw0))
   \<and> \<not> never_both_asserted (cs_lines hw0)
        (drop (length (trace hw0)) (trace (EPD_13IN3E_Sleep hw0)))"
  by (simp add: EPD_13IN3E_Sleep_def EPD_13IN3E_CS_ALL_def cs_lines_def pins_hw0 trace_hw0
      EPD_13IN3E_SendCommand_def EPD_13IN3E_SendData_def prim_defs)

text \<open>
  \<^verbatim>\<open>BeginFrameM\<close> does not release the Slave before selecting the Master, as
  \<^verbatim>\<open>BeginFrameS\<close> does for the Master: called right after \<^verbatim>\<open>BeginFrameS\<close> it leaves
  both lines low and sends its opcode to both controllers.
\<close>

lemma BeginFrameM_keeps_slave_selected:
  "\<not> slave_high_at_BeginFrameM [Call_BeginFrameS, Call_BeginFrameM] hw0
   \<and> cs_lines (do_calls [Call_BeginFrameS, Call_BeginFrameM] hw0) = (LOW, LOW)
   \<and> \<not> never_both_asserted (cs_lines hw0)
        (drop (length (trace hw0)) (trace (do_calls [Call_BeginFrameS, Call_BeginFrameM] hw0)))"
  by (simp add: EPD_13IN3E_BeginFrameS_def EPD_13IN3E_BeginFrameM_def EPD_13IN3E_CS_ALL_def
      cs_lines_def pins_hw0 trace_hw0 EPD_13IN3E_SendCommand_def prim_defs)

text \<open>
  C3. \<^verbatim>\<open>Reset\<close> drives the reset line high, low, high, low, high, with a 30ms delay
  after each of the five writes: three writes of high and two of low.
\<close>

theorem Reset_double_pulse:
  "trace (EPD_13IN3E_Reset s) = trace s @
     [Digital_Write EPD_RST_PIN HIGH, Delay_ms 30,
      Digital_Write EPD_RST_PIN LOW, Delay_ms 30,
      Digital_Write EPD_RST_PIN HIGH, Delay_ms 30,
      Digital_Write EPD_RST_PIN LOW, Delay_ms 30,
      Digital_Write EPD_RST_PIN HIGH, Delay_ms 30]
   \<and> count_list (drop (length (trace s)) (trace (EPD_13IN3E_Reset s)))
        (Digital_Write EPD_RST_PIN HIGH) = 3
   \<and> count_list (drop (length (trace s)) (trace (EPD_13IN3E_Reset s)))
        (Digital_Write EPD_RST_PIN LOW) = 2"
  by (simp add: EPD_13IN3E_Reset_def prim_defs)

text \<open>
  C8. \<^verbatim>\<open>PowerOff\<close> sends the deep-sleep opcode 0x07 and its parameter 0xA5 with both
  chip-selects asserted, releases them, waits (100ms in \<^verbatim>\<open>Sleep\<close>, 100ms more in
  \<^verbatim>\<open>PowerOff\<close>) and only then drives the power-enable line low; that write is the
  last event of the call and the only write to the power-enable line.
\<close>

theorem PowerOff_sleeps_first:
  "trace (EPD_13IN3E_PowerOff s) = trace s @
     [Digital_Write EPD_CS_M_PIN LOW, Digital_Write EPD_CS_S_PIN LOW,
      SPI_Transfer LOW LOW 0x07, SPI_Transfer LOW LOW 0xA5,
      Digital_Write EPD_CS_M_PIN HIGH, Digital_Write EPD_CS_S_PIN HIGH,
      Delay_ms 100, Delay_ms 100,
      Digital_Write EPD_PWR_PIN LOW]
   \<and> pins (EPD_13IN3E_PowerOff s) EPD_PWR_PIN = LOW"
  by (simp add: EPD_13IN3E_PowerOff_def EPD_13IN3E_Sleep_def EPD_13IN3E_CS_ALL_def
      EPD_13IN3E_SendCommand_def EPD_13IN3E_SendData_def prim_defs)

text \<open>
  C9. \<^verbatim>\<open>ReadBusyH\<close> has no bound on its polling: whatever the number \<open>n\<close> of low
  samples before the first high one, it returns after \<open>n + 1\<close> samples, the last of
  which read high. It returns if and only if the busy input reads high at some sample
  from the current one on; when the input never reads high, neither \<^verbatim>\<open>ReadBusyH\<close>
  nor \<^verbatim>\<open>RefreshNow\<close> returns.
\<close>

theorem ReadBusyH_unbounded:
  "(\<forall>n. ready_after busy (reads s) n \<longrightarrow>
        EPD_13IN3E_ReadBusyH busy s =
          Some (s\<lparr>trace := trace s @ busy_wait n, reads := reads s + Suc n\<rparr>))
   \<and> (EPD_13IN3E_ReadBusyH busy s \<noteq> None \<longleftrightarrow> (\<exists>k\<ge>reads s. busy k = HIGH))
   \<and> ((\<forall>k\<ge>reads s. busy k = LOW) \<longrightarrow>
        EPD_13IN3E_ReadBusyH busy s = None \<and> EPD_13IN3E_RefreshNow busy s = None)"
proof (intro conjI allI impI)
  fix n assume "ready_after busy (reads s) n"
  then show "EPD_13IN3E_ReadBusyH busy s =
      Some (s\<lparr>trace := trace s @ busy_wait n, reads := reads s + Suc n\<rparr>)"
    by (rule ReadBusyH_ready)
next
  show "EPD_13IN3E_ReadBusyH busy s \<noteq> None \<longleftrightarrow> (\<exists>k\<ge>reads s. busy k = HIGH)"
    unfolding ready_after_ex [symmetric]
    using ReadBusyH_ready [of busy s] ReadBusyH_returns_ready [of busy s] by fastforce
next
  assume never: "\<forall>k\<ge>reads s. busy k = LOW"
  then show "EPD_13IN3E_ReadBusyH busy s = None" by (rule ReadBusyH_never_ready)
next
  assume never: "\<forall>k\<ge>reads s. busy k = LOW"
  show "EPD_13IN3E_RefreshNow busy s = None"
  proof (rule ccontr)
    assume "EPD_13IN3E_RefreshNow busy s \<noteq> None"
    then obtain s' where "EPD_13IN3E_TurnOnDisplay busy s = Some s'"
      by (auto simp: EPD_13IN3E_RefreshNow_def)
    then obtain n1 where "ready_after busy (reads s) n1"
      using TurnOnDisplay_returns_ready by blast
    then have "busy (reads s + n1) = HIGH" by (simp add: ready_after_def)
    with never show False by simp
  qed
qed

theorem ReadBusyH_unbounded_witness:
  "EPD_13IN3E_ReadBusyH (\<lambda>k. if k < 5 then LOW else HIGH) hw0 =
      Some (hw0\<lparr>trace := trace hw0 @ busy_wait 5, reads := 6\<rparr>)
   \<and> EPD_13IN3E_ReadBusyH (\<lambda>k. LOW) hw0 = None
   \<and> EPD_13IN3E_RefreshNow (\<lambda>k. LOW) hw0 = None"
  using ReadBusyH_unbounded [of "\<lambda>k. if k < 5 then LOW else HIGH" hw0, THEN conjunct1, rule_format, of 5]
    ReadBusyH_unbounded [of "\<lambda>k. LOW" hw0, THEN conjunct2, THEN conjunct2]
  by (simp add: ready_after_def reads_hw0)

text \<open>
  C4. Between \<^verbatim>\<open>BeginFrameM\<close> and \<^verbatim>\<open>EndFrameM\<close>, 1600 \<^verbatim>\<open>WriteLineM\<close> calls with non-null
  buffers put, after the opcode 0x10, exactly 1600 * 300 = 480000 data bytes on the bus
  with the Master selected: each call sends 300 bytes, and they are the first 300 bytes
  of its buffer whenever the buffer holds that many. The same holds for \<^verbatim>\<open>WriteLineS\<close>
  between \<^verbatim>\<open>BeginFrameS\<close> and \<^verbatim>\<open>EndFrameS\<close>, with the Slave selected and the Master
  deselected.
\<close>

theorem WriteLine_frame_bytes:
  assumes len: "length bufs = EPD_13IN3E_HEIGHT" and nonnull: "\<forall>b\<in>set bufs. b \<noteq> None"
  shows "trace (block [EPD_13IN3E_BeginFrameM, fold EPD_13IN3E_WriteLineM bufs,
                       EPD_13IN3E_EndFrameM] s) =
           trace s @ [Digital_Write EPD_CS_M_PIN LOW] @
           on_bus LOW (pins s EPD_CS_S_PIN) (0x10 # concat (map line_bytes bufs)) @ cs_all HIGH
       \<and> trace (block [EPD_13IN3E_BeginFrameS, fold EPD_13IN3E_WriteLineS bufs,
                       EPD_13IN3E_EndFrameS] s) =
           trace s @ cs_all HIGH @ [Digital_Write EPD_CS_S_PIN LOW] @
           on_bus HIGH LOW (0x10 # concat (map line_bytes bufs)) @ cs_all HIGH
       \<and> (\<forall>b\<in>set bufs. length (line_bytes b) = 300)
       \<and> length (concat (map line_bytes bufs)) = 480000
       \<and> ((\<forall>b\<in>set bufs. 300 \<le> length (the b)) \<longrightarrow>
            concat (map line_bytes bufs) = concat (map (\<lambda>b. take 300 (the b)) bufs))"
proof (intro conjI impI)
  show "trace (block [EPD_13IN3E_BeginFrameM, fold EPD_13IN3E_WriteLineM bufs,
                       EPD_13IN3E_EndFrameM] s) =
           trace s @ [Digital_Write EPD_CS_M_PIN LOW] @
           on_bus LOW (pins s EPD_CS_S_PIN) (0x10 # concat (map line_bytes bufs)) @ cs_all HIGH"
    by (simp add: EPD_13IN3E_BeginFrameM_def EPD_13IN3E_EndFrameM_def fold_WriteLineM
        step_eqs on_bus_def)
  show "trace (block [EPD_13IN3E_BeginFrameS, fold EPD_13IN3E_WriteLineS bufs,
                       EPD_13IN3E_EndFrameS] s) =
           trace s @ cs_all HIGH @ [Digital_Write EPD_CS_S_PIN LOW] @
           on_bus HIGH LOW (0x10 # concat (map line_bytes bufs)) @ cs_all HIGH"
    by (simp add: EPD_13IN3E_BeginFrameS_def EPD_13IN3E_EndFrameS_def fold_WriteLineS
        step_eqs on_bus_def)
  show each: "\<forall>b\<in>set bufs. length (line_bytes b) = 300"
    using nonnull by (simp add: length_line_bytes)
  show "length (concat (map line_bytes bufs)) = 480000"
    using length_concat_const [OF each] len by (simp add: EPD_13IN3E_HEIGHT_def)
  assume "\<forall>b\<in>set bufs. 300 \<le> length (the b)"
  with nonnull show "concat (map line_bytes bufs) = concat (map (\<lambda>b. take 300 (the b)) bufs)"
    by (intro concat_line_bytes_take) simp
qed

theorem WriteLine_frame_bytes_witness:
  "trace (block [EPD_13IN3E_BeginFrameM,
                 fold EPD_13IN3E_WriteLineM (replicate 1600 (Some (replicate 300 0x11))),
                 EPD_13IN3E_EndFrameM] hw0) =
     trace hw0 @ [Digital_Write EPD_CS_M_PIN LOW] @
     on_bus LOW HIGH (0x10 # concat (replicate 1600 (replicate 300 0x11))) @ cs_all HIGH
   \<and> length (concat (map line_bytes (replicate 1600 (Some (replicate 300 0x11))))) = 480000"
proof -
  have 1: "length (replicate 1600 (Some (replicate 300 (0x11 :: UBYTE)))) = EPD_13IN3E_HEIGHT"
    by (simp add: EPD_13IN3E_HEIGHT_def)
  have 2: "\<forall>b\<in>set (replicate 1600 (Some (replicate 300 (0x11 :: UBYTE)))). b \<noteq> None"
    by simp
  have 3: "pins hw0 EPD_CS_S_PIN = HIGH"
    by (simp add: hw0_def DEV_Module_Init_def boot_def prim_defs)
  have 4: "\<forall>b\<in>set (replicate 1600 (Some (replicate 300 (0x11 :: UBYTE)))). 300 \<le> length (the b)"
    by simp
  from WriteLine_frame_bytes [OF 1 2, of hw0] 4 show ?thesis
    by (simp add: 3 map_replicate_const fetched_take EPD_13IN3E_WIDTH_def del: block.simps)
qed

text \<open>
  C6. For a valid colour code \<open>c\<close>, the packed byte \<open>(c<<4)|c\<close> is \<open>16 * c + c\<close>, and
  \<^verbatim>\<open>Clear(c)\<close> sends the opcode 0x10 and 1600 lines of 300 such bytes with the Master
  selected, then the same with only the Slave selected, and then does what
  \<^verbatim>\<open>RefreshNow\<close> does from there; when the busy input goes high twice the call
  returns with the streaming trace followed by the refresh sequence.
\<close>

theorem Clear_fills_and_refreshes:
  assumes "color \<in> {0, 1, 2, 3, 5, 6}"
  shows "unat (push_bit 4 color OR color) = 16 * unat color + unat color
    \<and> EPD_13IN3E_Clear busy color s =
        EPD_13IN3E_RefreshNow busy
          (s\<lparr>pins := (pins s)(EPD_CS_M_PIN := HIGH, EPD_CS_S_PIN := HIGH),
             trace := trace s @
               [Digital_Write EPD_CS_M_PIN LOW] @
               on_bus LOW (pins s EPD_CS_S_PIN)
                 (0x10 # concat (replicate 1600 (replicate 300 (push_bit 4 color OR color)))) @
               cs_all HIGH @
               [Digital_Write EPD_CS_S_PIN LOW] @
               on_bus HIGH LOW
                 (0x10 # concat (replicate 1600 (replicate 300 (push_bit 4 color OR color)))) @
               cs_all HIGH\<rparr>)
    \<and> (\<forall>n1 n2. ready_after busy (reads s) n1 \<and> ready_after busy (reads s + Suc n1) n2 \<longrightarrow>
         map_option trace (EPD_13IN3E_Clear busy color s) =
           Some (trace s @
             [Digital_Write EPD_CS_M_PIN LOW] @
             on_bus LOW (pins s EPD_CS_S_PIN)
               (0x10 # concat (replicate 1600 (replicate 300 (push_bit 4 color OR color)))) @
             cs_all HIGH @
             [Digital_Write EPD_CS_S_PIN LOW] @
             on_bus HIGH LOW
               (0x10 # concat (replicate 1600 (replicate 300 (push_bit 4 color OR color)))) @
             cs_all HIGH @
             cs_all LOW @ on_bus LOW LOW [0x04] @ cs_all HIGH @
             busy_wait n1 @
             [Delay_ms 50] @
             cs_all LOW @ on_bus LOW LOW [0x12, 0x00] @ cs_all HIGH @
             busy_wait n2 @
             cs_all LOW @ on_bus LOW LOW [0x02, 0x00] @ cs_all HIGH))"
proof (intro conjI allI impI)
  show "unat (push_bit 4 color OR color) = 16 * unat color + unat color"
    using assms by (rule valid_color_pack)
  show "EPD_13IN3E_Clear busy color s =
        EPD_13IN3E_RefreshNow busy
          (s\<lparr>pins := (pins s)(EPD_CS_M_PIN := HIGH, EPD_CS_S_PIN := HIGH),
             trace := trace s @
               [Digital_Write EPD_CS_M_PIN LOW] @
               on_bus LOW (pins s EPD_CS_S_PIN)
                 (0x10 # concat (replicate 1600 (replicate 300 (push_bit 4 color OR color)))) @
               cs_all HIGH @
               [Digital_Write EPD_CS_S_PIN LOW] @
               on_bus HIGH LOW
                 (0x10 # concat (replicate 1600 (replicate 300 (push_bit 4 color OR color)))) @
               cs_all HIGH\<rparr>)"
    by (rule Clear_streams)
next
  fix n1 n2
  assume "ready_after busy (reads s) n1 \<and> ready_after busy (reads s + Suc n1) n2"
  then show "map_option trace (EPD_13IN3E_Clear busy color s) =
           Some (trace s @
             [Digital_Write EPD_CS_M_PIN LOW] @
             on_bus LOW (pins s EPD_CS_S_PIN)
               (0x10 # concat (replicate 1600 (replicate 300 (push_bit 4 color OR color)))) @
             cs_all HIGH @
             [Digital_Write EPD_CS_S_PIN LOW] @
             on_bus HIGH LOW
               (0x10 # concat (replicate 1600 (replicate 300 (push_bit 4 color OR color)))) @
             cs_all HIGH @
             cs_all LOW @ on_bus LOW LOW [0x04] @ cs_all HIGH @
             busy_wait n1 @
             [Delay_ms 50] @
             cs_all LOW @ on_bus LOW LOW [0x12, 0x00] @ cs_all HIGH @
             busy_wait n2 @
             cs_all LOW @ on_bus LOW LOW [0x02, 0x00] @ cs_all HIGH)"
    unfolding Clear_streams EPD_13IN3E_RefreshNow_def
    by (subst TurnOnDisplay_ready [where ?n1.0 = n1 and ?n2.0 = n2]) simp_all
qed

theorem Clear_fills_and_refreshes_witness:
  "map_option trace (EPD_13IN3E_Clear (\<lambda>k. HIGH) 1 hw0) =
     Some (trace hw0 @
       [Digital_Write EPD_CS_M_PIN LOW] @
       on_bus LOW HIGH (0x10 # concat (replicate 1600 (replicate 300 0x11))) @
       cs_all HIGH @
       [Digital_Write EPD_CS_S_PIN LOW] @
       on_bus HIGH LOW (0x10 # concat (replicate 1600 (replicate 300 0x11))) @
       cs_all HIGH @
       cs_all LOW @ on_bus LOW LOW [0x04] @ cs_all HIGH @
       busy_wait 0 @
       [Delay_ms 50] @
       cs_all LOW @ on_bus LOW LOW [0x12, 0x00] @ cs_all HIGH @
       busy_wait 0 @
       cs_all LOW @ on_bus LOW LOW [0x02, 0x00] @ cs_all HIGH)"
proof -
  have valid: "(1 :: UBYTE) \<in> {0, 1, 2, 3, 5, 6}" by simp
  have ready: "ready_after (\<lambda>k. HIGH) (reads hw0) 0 \<and>
      ready_after (\<lambda>k. HIGH) (reads hw0 + Suc 0) 0"
    by (simp add: ready_after_def)
  have white: "push_bit 4 (1 :: UBYTE) OR 1 = 0x11" by simp
  from Clear_fills_and_refreshes [OF valid, of "\<lambda>k. HIGH" hw0, THEN conjunct2, THEN conjunct2,
      rule_format, OF ready]
  show ?thesis by (simp only: white pins_hw0)
qed

text \<open>
  C7 (amended). After the reset pulse, \<^verbatim>\<open>Init\<close> sends AN_TM after driving the Master
  chip-select alone low: the Slave line keeps the level it had when \<^verbatim>\<open>Init\<close> was
  entered. Then CMD66, PSR, CDI, TCON, AGID, PWS, CCSET and TRES go out with both
  chip-selects low, then PWR, EN_BUF, BTST_P, BOOST_VDDP_EN, BTST_N, BUCK_BOOST_VDDN and
  TFT_VCOM_POWER with the Master low and the Slave high; every command is followed by
  its parameter table and by both lines driven high.
\<close>

theorem Init_addressing:
  "trace (EPD_13IN3E_Init s) = trace (EPD_13IN3E_Reset s) @
     [Digital_Write EPD_CS_M_PIN LOW] @
       on_bus LOW (pins s EPD_CS_S_PIN) (AN_TM # AN_TM_V) @ cs_all HIGH @
     cs_all LOW @ on_bus LOW LOW (CMD66 # CMD66_V) @ cs_all HIGH @
     cs_all LOW @ on_bus LOW LOW (PSR # PSR_V) @ cs_all HIGH @
     cs_all LOW @ on_bus LOW LOW (CDI # CDI_V) @ cs_all HIGH @
     cs_all LOW @ on_bus LOW LOW (TCON # TCON_V) @ cs_all HIGH @
     cs_all LOW @ on_bus LOW LOW (AGID # AGID_V) @ cs_all HIGH @
     cs_all LOW @ on_bus LOW LOW (PWS # PWS_V) @ cs_all HIGH @
     cs_all LOW @ on_bus LOW LOW (CCSET # CCSET_V) @ cs_all HIGH @
     cs_all LOW @ on_bus LOW LOW (TRES # TRES_V) @ cs_all HIGH @
     [Digital_Write EPD_CS_M_PIN LOW] @ on_bus LOW HIGH (PWR_epd # PWR_V) @ cs_all HIGH @
     [Digital_Write EPD_CS_M_PIN LOW] @ on_bus LOW HIGH (EN_BUF # EN_BUF_V) @ cs_all HIGH @
     [Digital_Write EPD_CS_M_PIN LOW] @ on_bus LOW HIGH (BTST_P # BTST_P_V) @ cs_all HIGH @
     [Digital_Write EPD_CS_M_PIN LOW] @
       on_bus LOW HIGH (BOOST_VDDP_EN # BOOST_VDDP_EN_V) @ cs_all HIGH @
     [Digital_Write EPD_CS_M_PIN LOW] @ on_bus LOW HIGH (BTST_N # BTST_N_V) @ cs_all HIGH @
     [Digital_Write EPD_CS_M_PIN LOW] @
       on_bus LOW HIGH (BUCK_BOOST_VDDN # BUCK_BOOST_VDDN_V) @ cs_all HIGH @
     [Digital_Write EPD_CS_M_PIN LOW] @
       on_bus LOW HIGH (TFT_VCOM_POWER # TFT_VCOM_POWER_V) @ cs_all HIGH"
  by (simp add: EPD_13IN3E_Init_def step_eqs on_bus_def cs_all_def pins_Reset)

text \<open>
  C7 as stated fails for AN_TM: on the board as \<^verbatim>\<open>DEV_Module_Init\<close> leaves it, \<^verbatim>\<open>Init\<close>
  clocks the AN_TM opcode out with the Master selected and the Slave deselected, and
  never with both selected.
\<close>

theorem AN_TM_not_to_both_counterexample:
  "SPI_Transfer LOW HIGH AN_TM \<in> set (trace (EPD_13IN3E_Init hw0))
   \<and> SPI_Transfer LOW LOW AN_TM \<notin> set (trace (EPD_13IN3E_Init hw0))"
  by (simp add: EPD_13IN3E_Init_def step_eqs on_bus_def cs_all_def pins_Reset pins_hw0 trace_hw0
      EPD_13IN3E_Reset_def opcode_defs table_defs)

text \<open>
  C5. Let the first \<open>k < 1600\<close> reads of a half return full 300-byte lines and the next
  read be short. If this happens in the Master half, \<^verbatim>\<open>updateDisplay\<close> writes exactly
  those \<open>k\<close> lines to the Master, calls \<^verbatim>\<open>EndFrameM\<close>, goes through the Slave half and
  \<^verbatim>\<open>EndFrameS\<close>, and returns false; if the Master half is complete and it happens in
  the Slave half, exactly \<open>k\<close> lines go to the Slave, \<^verbatim>\<open>EndFrameS\<close> follows, and the
  call returns false. In both cases the call returns whatever the busy input does,
  the trace ends with \<^verbatim>\<open>EndFrameS\<close> (no refresh, no power-off) and the busy input is
  never sampled.
\<close>

theorem updateDisplay_truncated:
  assumes k: "k < EPD_HEIGHT"
    and fulls: "length fulls = k" "\<forall>l\<in>set fulls. length l = BYTES_PER_LINE_HALF"
    and short: "short_read rest"
  shows "(\<exists>s'. updateDisplay busy 200 (fulls @ rest) s = Some (False, s') \<and>
            trace s' = trace (EPD_13IN3E_Init (EPD_13IN3E_PowerOn s)) @
              [Digital_Write EPD_CS_M_PIN LOW] @ on_bus LOW HIGH [0x10] @
              lines_events LOW HIGH 0 fulls @
              cs_all HIGH @
              cs_all HIGH @ [Digital_Write EPD_CS_S_PIN LOW] @ on_bus HIGH LOW [0x10] @
              lines_events HIGH LOW 0 (full_lines EPD_HEIGHT (tl rest)) @
              cs_all HIGH \<and>
            reads s' = reads s)
       \<and> (\<forall>mlines. length mlines = EPD_HEIGHT \<and>
                   (\<forall>l\<in>set mlines. length l = BYTES_PER_LINE_HALF) \<longrightarrow>
           (\<exists>s'. updateDisplay busy 200 (mlines @ fulls @ rest) s = Some (False, s') \<and>
              trace s' = trace (EPD_13IN3E_Init (EPD_13IN3E_PowerOn s)) @
                [Digital_Write EPD_CS_M_PIN LOW] @ on_bus LOW HIGH [0x10] @
                lines_events LOW HIGH 0 mlines @
                cs_all HIGH @
                cs_all HIGH @ [Digital_Write EPD_CS_S_PIN LOW] @ on_bus HIGH LOW [0x10] @
                lines_events HIGH LOW 0 fulls @
                cs_all HIGH \<and>
              reads s' = reads s))"
proof (intro conjI allI impI)
  from fulls k short
  have m: "full_lines EPD_HEIGHT (fulls @ rest) = fulls"
    "rest_after EPD_HEIGHT (fulls @ rest) = tl rest"
    using full_lines_short [of fulls rest EPD_HEIGHT] by simp_all
  with fulls k
  have "length (full_lines EPD_HEIGHT (fulls @ rest)) < EPD_HEIGHT \<or>
      length (full_lines EPD_HEIGHT (rest_after EPD_HEIGHT (fulls @ rest))) < EPD_HEIGHT"
    by simp
  from updateDisplay_incomplete [OF this, of busy s]
  show "\<exists>s'. updateDisplay busy 200 (fulls @ rest) s = Some (False, s') \<and>
            trace s' = trace (EPD_13IN3E_Init (EPD_13IN3E_PowerOn s)) @
              [Digital_Write EPD_CS_M_PIN LOW] @ on_bus LOW HIGH [0x10] @
              lines_events LOW HIGH 0 fulls @
              cs_all HIGH @
              cs_all HIGH @ [Digital_Write EPD_CS_S_PIN LOW] @ on_bus HIGH LOW [0x10] @
              lines_events HIGH LOW 0 (full_lines EPD_HEIGHT (tl rest)) @
              cs_all HIGH \<and>
            reads s' = reads s"
    by (simp only: m)
next
  fix mlines :: "UBYTE list list"
  assume ml: "length mlines = EPD_HEIGHT \<and> (\<forall>l\<in>set mlines. length l = BYTES_PER_LINE_HALF)"
  then have m: "full_lines EPD_HEIGHT (mlines @ fulls @ rest) = mlines"
    "rest_after EPD_HEIGHT (mlines @ fulls @ rest) = fulls @ rest"
    using full_lines_complete [of mlines "fulls @ rest"] by simp_all
  from fulls k short
  have sl: "full_lines EPD_HEIGHT (fulls @ rest) = fulls"
    using full_lines_short [of fulls rest EPD_HEIGHT] by simp
  with fulls k m
  have "length (full_lines EPD_HEIGHT (mlines @ fulls @ rest)) < EPD_HEIGHT \<or>
      length (full_lines EPD_HEIGHT (rest_after EPD_HEIGHT (mlines @ fulls @ rest))) < EPD_HEIGHT"
    by simp
  from updateDisplay_incomplete [OF this, of busy s]
  show "\<exists>s'. updateDisplay busy 200 (mlines @ fulls @ rest) s = Some (False, s') \<and>
              trace s' = trace (EPD_13IN3E_Init (EPD_13IN3E_PowerOn s)) @
                [Digital_Write EPD_CS_M_PIN LOW] @ on_bus LOW HIGH [0x10] @
                lines_events LOW HIGH 0 mlines @
                cs_all HIGH @
                cs_all HIGH @ [Digital_Write EPD_CS_S_PIN LOW] @ on_bus HIGH LOW [0x10] @
                lines_events HIGH LOW 0 fulls @
                cs_all HIGH \<and>
              reads s' = reads s"
    by (simp only: m sl)
qed

theorem updateDisplay_truncated_witness:
  "map_option fst (updateDisplay (\<lambda>k. LOW) 200
      ([replicate 300 0x11] @ [replicate 7 0x22]) hw0) = Some False
   \<and> map_option fst (updateDisplay (\<lambda>k. LOW) 200
      (replicate 1600 (replicate 300 0x33) @ [replicate 300 0x11] @ [replicate 7 0x22]) hw0) =
     Some False"
proof -
  have h1: "1 < EPD_HEIGHT" by (simp add: EPD_HEIGHT_def)
  have h2: "length [replicate 300 (0x11 :: UBYTE)] = 1" by simp
  have h3: "\<forall>l\<in>set [replicate 300 (0x11 :: UBYTE)]. length l = BYTES_PER_LINE_HALF"
    by (simp add: BYTES_300)
  have h4: "short_read [replicate 7 (0x22 :: UBYTE)]"
    by (simp add: short_read_def BYTES_300)
  have h5: "length (replicate 1600 (replicate 300 (0x33 :: UBYTE))) = EPD_HEIGHT \<and>
      (\<forall>l\<in>set (replicate 1600 (replicate 300 (0x33 :: UBYTE))). length l = BYTES_PER_LINE_HALF)"
    by (simp add: EPD_HEIGHT_def BYTES_300)
  note T = updateDisplay_truncated [OF h1 h2 h3 h4, of "\<lambda>k. LOW" hw0]
  from T [THEN conjunct1] obtain s1 where
    1: "updateDisplay (\<lambda>k. LOW) 200 ([replicate 300 0x11] @ [replicate 7 0x22]) hw0 =
        Some (False, s1)"
    by blast
  from T [THEN conjunct2, rule_format, OF h5] obtain s2 where
    2: "updateDisplay (\<lambda>k. LOW) 200
      (replicate 1600 (replicate 300 0x33) @ [replicate 300 0x11] @ [replicate 7 0x22]) hw0 =
        Some (False, s2)"
    by blast
  show ?thesis by (simp only: 1 2 option.map fst_conv simp_thms)
qed

text \<open>
  C10 (amended). When \<^verbatim>\<open>checkForNewImage\<close> detects a change (a non-empty hash that
  differs from the stored token) it stores the first 32 characters of the server's hash
  before any image data is fetched, and the token keeps that value when the following
  \<^verbatim>\<open>updateDisplay\<close> fails. If the hash has at most 32 characters (as an MD5 digest in
  hexadecimal has), the stored token is the server's hash, and the next poll with the
  same hash reports no update and leaves the panel alone, whatever the image reply would
  be: the failed image is not retried until the hash changes.
\<close>

theorem stored_hash_not_atomic:
  assumes new: "0 < length h" "c_str h \<noteq> last_image_hash a"
    and fail: "updateDisplay busy code stream (panel a) = Some (False, s')"
  shows "checkForNewImage 200 h (last_image_hash a) = (True, take 32 (c_str h))
     \<and> loop True busy (200, h) (code, stream) a =
         Some \<lparr>last_image_hash = take 32 (c_str h), panel = s'\<rparr>
     \<and> (length (c_str h) \<le> 32 \<longrightarrow>
          take 32 (c_str h) = c_str h
        \<and> checkForNewImage 200 h (take 32 (c_str h)) = (False, take 32 (c_str h))
        \<and> loop True busy' (200, h) img' \<lparr>last_image_hash = take 32 (c_str h), panel = s'\<rparr> =
            Some \<lparr>last_image_hash = take 32 (c_str h), panel = s'\<rparr>)"
proof (intro conjI impI)
  show 1: "checkForNewImage 200 h (last_image_hash a) = (True, take 32 (c_str h))"
    using new by (rule checkForNewImage_new)
  show "loop True busy (200, h) (code, stream) a =
         Some \<lparr>last_image_hash = take 32 (c_str h), panel = s'\<rparr>"
    by (simp add: loop_def 1 fail)
next
  assume short: "length (c_str h) \<le> 32"
  then show "take 32 (c_str h) = c_str h" by simp
  from short show 2: "checkForNewImage 200 h (take 32 (c_str h)) = (False, take 32 (c_str h))"
    by (rule checkForNewImage_same)
  show "loop True busy' (200, h) img' \<lparr>last_image_hash = take 32 (c_str h), panel = s'\<rparr> =
            Some \<lparr>last_image_hash = take 32 (c_str h), panel = s'\<rparr>"
    by (simp add: loop_def 2)
qed

theorem stored_hash_not_atomic_witness:
  "loop True (\<lambda>k. LOW) (200, ''d41d8cd98f00b204e9800998ecf8427e'') (500, [])
      \<lparr>last_image_hash = [], panel = hw0\<rparr> =
     Some \<lparr>last_image_hash = ''d41d8cd98f00b204e9800998ecf8427e'', panel = hw0\<rparr>
   \<and> checkForNewImage 200 ''d41d8cd98f00b204e9800998ecf8427e''
        ''d41d8cd98f00b204e9800998ecf8427e'' =
       (False, ''d41d8cd98f00b204e9800998ecf8427e'')"
proof -
  let ?h = "''d41d8cd98f00b204e9800998ecf8427e''"
  let ?a = "\<lparr>last_image_hash = [], panel = hw0\<rparr>"
  have c: "c_str ?h = ?h" by (simp add: c_str_def)
  have h1: "0 < length ?h" by simp
  have h2: "c_str ?h \<noteq> last_image_hash ?a" by (simp add: c)
  have h3: "updateDisplay (\<lambda>k. LOW) 500 [] (panel ?a) = Some (False, hw0)"
    by (simp add: updateDisplay_def)
  have h4: "length (c_str ?h) \<le> 32" by (simp add: c)
  note T = stored_hash_not_atomic [OF h1 h2 h3]
  from T [THEN conjunct2, THEN conjunct1] T [THEN conjunct2, THEN conjunct2, rule_format, OF h4]
  show ?thesis by (simp add: c)
qed

text \<open>
  C10 as stated fails for a hash longer than the 32 characters the buffer holds: after
  a failed update (HTTP 500) the stored token is the truncated hash, not the server's
  hash, and the next poll with the unchanged hash reports a new image again.
\<close>

theorem long_hash_retried_counterexample:
  "loop True (\<lambda>k. LOW) (200, replicate 33 CHR ''a'') (500, [])
      \<lparr>last_image_hash = [], panel = hw0\<rparr> =
     Some \<lparr>last_image_hash = replicate 32 CHR ''a'', panel = hw0\<rparr>
   \<and> replicate 32 CHR ''a'' \<noteq> replicate 33 CHR ''a''
   \<and> checkForNewImage 200 (replicate 33 CHR ''a'') (replicate 32 CHR ''a'') =
       (True, replicate 32 CHR ''a'')"
  by (simp add: loop_def checkForNewImage_def updateDisplay_def c_str_def
      sizeof_last_image_hash_def takeWhile_replicate)

end
